theory Spec2Isabelle
  imports Main "HOL-Library.Word"
begin

unbundle bit_operations_syntax

section \<open>Platform: machine types, error numbers, signals, wait statuses\<close>

text \<open>
  The program runs on x86-64 Linux only. Addresses and sizes are 64-bit words, the
  registers are 64-bit words, \<open>errno\<close>, signal numbers, process ids, file descriptors and
  wait statuses are C \<open>int\<close>s (modelled as \<open>int\<close>; no arithmetic is done on them).
  The numeric values below are those of \<open>errno.h\<close> and \<open>signal.h\<close> on that platform.
\<close>

type_synonym byte = "8 word"
type_synonym uintptr_t = "64 word"
type_synonym size_t = "64 word"

definition EINTR :: int where "EINTR = 4"
definition EAGAIN :: int where "EAGAIN = 11"
definition EWOULDBLOCK :: int where "EWOULDBLOCK = 11"
definition ENOMEM :: int where "ENOMEM = 12"
definition EINVAL :: int where "EINVAL = 22"
definition EPIPE :: int where "EPIPE = 32"

definition SIGABRT :: int where "SIGABRT = 6"
definition SIGBUS :: int where "SIGBUS = 7"
definition SIGFPE :: int where "SIGFPE = 8"
definition SIGKILL :: int where "SIGKILL = 9"
definition SIGSEGV :: int where "SIGSEGV = 11"
definition SIGSTOP :: int where "SIGSTOP = 19"

text \<open>
  \<open>WIFSTOPPED(status)\<close> is \<open>(status & 0xff) == 0x7f\<close> and \<open>WSTOPSIG(status)\<close> is
  \<open>(status & 0xff00) >> 8\<close>; on \<open>int\<close>, masking with \<open>0xff\<close> is \<open>mod 256\<close> and the shift
  is \<open>div 256\<close>. \<open>W_STOPCODE\<close> builds the status of a child stopped by a signal.
\<close>

definition WIFSTOPPED :: "int \<Rightarrow> bool" where
  "WIFSTOPPED status = (status mod 256 = 127)"

definition WSTOPSIG :: "int \<Rightarrow> int" where
  "WSTOPSIG status = (status div 256) mod 256"

definition W_STOPCODE :: "int \<Rightarrow> int" where
  "W_STOPCODE sig = sig * 256 + 127"

section \<open>Status values\<close>

text \<open>
  \<open>absl::Status\<close>: a code and a message. The codes are those of \<open>absl::StatusCode\<close>, an
  \<open>enum class\<close> over \<open>int\<close>; the IPC frame carries the code as its 4 bytes, so any 32-bit
  value can arrive. Constructing a status with the code \<open>kOk\<close> drops the message.
\<close>

type_synonym StatusCode = "32 word"

definition kOk :: StatusCode where "kOk = 0"
definition kInvalidArgument :: StatusCode where "kInvalidArgument = 3"
definition kInternal :: StatusCode where "kInternal = 13"

datatype Status = Status (code: StatusCode) (message: string)

definition OkStatus :: Status where
  "OkStatus = Status kOk []"

definition absl_Status :: "StatusCode \<Rightarrow> string \<Rightarrow> Status" where
  "absl_Status c m = (if c = kOk then OkStatus else Status c m)"

definition InternalError :: "string \<Rightarrow> Status" where
  "InternalError m = Status kInternal m"

definition InvalidArgumentError :: "string \<Rightarrow> Status" where
  "InvalidArgumentError m = Status kInvalidArgument m"

definition ok :: "Status \<Rightarrow> bool" where
  "ok s = (code s = kOk)"

definition IsInvalidArgument :: "Status \<Rightarrow> bool" where
  "IsInvalidArgument s = (code s = kInvalidArgument)"

text \<open>
  A \<open>StatusOr<T>\<close> is a sum: \<open>Inl\<close> a status that is not ok, \<open>Inr\<close> the value. Abseil
  documents that constructing one from an ok status stores an internal error instead.
\<close>

definition StatusOr_of_Status :: "Status \<Rightarrow> Status" where
  "StatusOr_of_Status s =
     (if ok s then InternalError ''An OK status is not a valid constructor argument to StatusOr<T>''
      else s)"

text \<open>
  Library routines the source calls and whose code is not part of the repository are taken
  as parameters: the mapping of an error number to a status, the formatter, and the two
  libc routines that name an error number and a signal. The prologue and the epilogue that
  are placed around the block come from the assembler's output, which is not part of the
  sources either.
\<close>

datatype fmt_arg = Arg_int int | Arg_uint nat | Arg_ptr uintptr_t | Arg_str string

record extern =
  ErrnoToStatus :: "int \<Rightarrow> string \<Rightarrow> Status"
  StrFormat :: "string \<Rightarrow> fmt_arg list \<Rightarrow> string"
  strerror :: "int \<Rightarrow> string"
  strsignal :: "int \<Rightarrow> string"
  GetGematriaBeforeBlockCode :: "8 word list"
  GetGematriaAfterBlockCode :: "8 word list"

section \<open>Processes, system calls and their results\<close>

text \<open>
  A process is modelled by what the code can observe of it: the value of \<open>errno\<close> and the
  calls it has issued so far, in order (\<open>Store\<close> is a run of bytes the process writes
  to its own memory, \<open>Call_code\<close> the jump into the mapped code). The kernel and the
  other process are the environment: each function takes the results of the calls it makes
  as arguments. A scripted call either succeeds, leaving \<open>errno\<close> as it was, or fails
  and sets \<open>errno\<close>.
\<close>

datatype prot = PROT_READ_WRITE | PROT_WRITE_EXEC

datatype ptrace_request = PTRACE_TRACEME | PTRACE_CONT | PTRACE_GETSIGINFO | PTRACE_GETREGS

datatype event =
    Call_write int nat nat
  | Call_read int nat nat
  | Call_close int
  | Call_pipe
  | Call_fork
  | Call_waitpid int
  | Call_ptrace ptrace_request int
  | Call_kill int int
  | Call_raise int
  | Call_munmap uintptr_t nat
  | Call_mmap uintptr_t nat prot
  | Call_perror
  | Call_abort
  | Call_code uintptr_t
  | Store uintptr_t "byte list"

record proc =
  errno :: int
  calls :: "event list"

definition issue :: "event \<Rightarrow> proc \<Rightarrow> proc" where
  "issue e p = p\<lparr>calls := calls p @ [e]\<rparr>"

datatype 'a sysret = Done 'a | Fails int

text \<open>
  A function of the source may fail to return: it waits on a call the environment never
  answers (the scripted answers are used up), it executes a division by zero, it reads
  past the end of an object (the behaviour is undefined, and the model does not follow
  it), or it is the child's side of the fork, which never returns to its caller. The
  state of the process at that point is kept.
\<close>

datatype stop = Blocked | Trapped | Undefined | In_child

datatype 'a run = Returns 'a | No_return stop proc

section \<open>The IPC frame\<close>

text \<open>
  \<open>PipedData\<close> is sent as its object representation, so it is modelled as such: 1040
  bytes, the \<open>int\<close>-sized status code at offset 0, the 1024 bytes of \<open>status_message\<close> at
  offset 4, four bytes of padding, and the 8-byte \<open>code_address\<close> at offset 1032 (the
  layout of the x86-64 System V ABI; integers are little-endian).
\<close>

type_synonym PipedData = "byte list"

definition sizeof_PipedData :: nat where "sizeof_PipedData = 1040"
definition offsetof_status_code :: nat where "offsetof_status_code = 0"
definition offsetof_status_message :: nat where "offsetof_status_message = 4"
definition sizeof_status_message :: nat where "sizeof_status_message = 1024"
definition offsetof_code_address :: nat where "offsetof_code_address = 1032"

definition le_bytes :: "nat \<Rightarrow> 'a::len word \<Rightarrow> byte list" where
  "le_bytes n w = map (\<lambda>i. ucast (drop_bit (8 * i) w)) [0..<n]"

definition le_word :: "byte list \<Rightarrow> 'a::len word" where
  "le_word bs = foldr (\<lambda>b w. ucast b OR push_bit 8 w) bs 0"

definition store :: "byte list \<Rightarrow> nat \<Rightarrow> byte list \<Rightarrow> byte list" where
  "store obj off bs = take off obj @ bs @ drop (off + length bs) obj"

definition MakePipedData :: PipedData where
  "MakePipedData = replicate sizeof_PipedData 0"

definition set_status_code :: "PipedData \<Rightarrow> StatusCode \<Rightarrow> PipedData" where
  "set_status_code piped_data c = store piped_data offsetof_status_code (le_bytes 4 c)"

definition set_code_address :: "PipedData \<Rightarrow> uintptr_t \<Rightarrow> PipedData" where
  "set_code_address piped_data a = store piped_data offsetof_code_address (le_bytes 8 a)"

definition status_code :: "PipedData \<Rightarrow> StatusCode" where
  "status_code piped_data = le_word (take 4 (drop offsetof_status_code piped_data))"

definition code_address :: "PipedData \<Rightarrow> uintptr_t" where
  "code_address piped_data = le_word (take 8 (drop offsetof_code_address piped_data))"

text \<open>
  The message as the constructor of the status takes it: the array \<open>status_message\<close>
  decays to a pointer to a C string, the bytes from the start of the field up to the first
  NUL. Nothing ends the string with the field: in a field without a NUL it goes on through
  the padding and \<open>code_address\<close>. In a frame without any NUL from the field on, the
  read leaves the object, which is undefined: there is no result then.
\<close>

definition status_message :: "PipedData \<Rightarrow> string option" where
  "status_message piped_data =
     (let bytes = drop offsetof_status_message piped_data
      in if 0 \<in> set bytes
         then Some (map (\<lambda>b. char_of (unat b)) (takeWhile (\<lambda>b. b \<noteq> 0) bytes))
         else None)"

definition IsRetryable :: "int \<Rightarrow> bool" where
  "IsRetryable err = (err = EINTR \<or> err = EAGAIN \<or> err = EWOULDBLOCK)"

subsection \<open>WriteAll\<close>

text \<open>
  The inner \<open>do ... while (IsRetryable(err))\<close>: every pass issues one \<open>write\<close> of
  \<open>to_write\<close> bytes at \<open>current_offset\<close> and then reads \<open>errno\<close>, whatever the call
  returned. \<open>Done k\<close> is a call that wrote \<open>k\<close> bytes (never more than it was asked to).
  The result is \<open>(bytes_written, err)\<close>, the answers left and the state.
\<close>

fun write_retry ::
  "int \<Rightarrow> nat \<Rightarrow> nat \<Rightarrow> nat sysret list \<Rightarrow> proc \<Rightarrow> (int \<times> int \<times> nat sysret list \<times> proc) run" where
  "write_retry fd current_offset to_write [] p =
     No_return Blocked (issue (Call_write fd current_offset to_write) p)"
| "write_retry fd current_offset to_write (r # rs) p =
     (let p1 = issue (Call_write fd current_offset to_write) p;
          bytes_written = (case r of Done k \<Rightarrow> int (min k to_write) | Fails e \<Rightarrow> - 1);
          p2 = (case r of Done k \<Rightarrow> p1 | Fails e \<Rightarrow> p1\<lparr>errno := e\<rparr>);
          err = errno p2
      in if IsRetryable err then write_retry fd current_offset to_write rs p2
         else Returns (bytes_written, err, rs, p2))"

lemma write_retry_shorter:
  "write_retry fd off n rs p = Returns (bw, err, rs', p') \<Longrightarrow> length rs' < length rs"
proof (induction rs arbitrary: p)
  case Nil
  then show ?case by simp
next
  case (Cons r rs)
  show ?case
  proof (cases "IsRetryable (errno (case r of Done k \<Rightarrow> issue (Call_write fd off n) p
                                   | Fails e \<Rightarrow> (issue (Call_write fd off n) p)\<lparr>errno := e\<rparr>))")
    case True
    with Cons.prems have "write_retry fd off n rs
        (case r of Done k \<Rightarrow> issue (Call_write fd off n) p
         | Fails e \<Rightarrow> (issue (Call_write fd off n) p)\<lparr>errno := e\<rparr>) = Returns (bw, err, rs', p')"
      by (simp add: Let_def)
    from Cons.IH [OF this] show ?thesis by simp
  next
    case False
    with Cons.prems have "rs' = rs" by (simp add: Let_def)
    then show ?thesis by simp
  qed
qed

function WriteAll_loop ::
  "extern \<Rightarrow> int \<Rightarrow> nat \<Rightarrow> nat \<Rightarrow> nat sysret list \<Rightarrow> proc \<Rightarrow> (Status \<times> nat sysret list \<times> proc) run" where
  "WriteAll_loop lib fd data_size current_offset rs p =
     (if current_offset < data_size then
        (case write_retry fd current_offset (data_size - current_offset) rs p of
           No_return s p' \<Rightarrow> No_return s p'
         | Returns (bytes_written, err, rs', p') \<Rightarrow>
             if bytes_written < 0
             then Returns (ErrnoToStatus lib err ''Failed to write to pipe'', rs', p')
             else WriteAll_loop lib fd data_size (current_offset + nat bytes_written) rs' p')
      else Returns (OkStatus, rs, issue (Call_close fd) p))"
  by pat_completeness auto
termination
  by (relation "measure (\<lambda>(lib, fd, data_size, off, rs, p). length rs)")
     (auto dest: write_retry_shorter)

declare WriteAll_loop.simps [simp del]

definition WriteAll ::
  "extern \<Rightarrow> int \<Rightarrow> PipedData \<Rightarrow> nat sysret list \<Rightarrow> proc \<Rightarrow> (Status \<times> nat sysret list \<times> proc) run" where
  "WriteAll lib fd piped_data rs p = WriteAll_loop lib fd (length piped_data) 0 rs p"

subsection \<open>ReadAll\<close>

text \<open>
  The same inner loop over \<open>read\<close>. \<open>Done bs\<close> is a call that delivered the bytes \<open>bs\<close>
  (never more than \<open>to_read\<close> of them); it returns their number, 0 at end of file. The
  bytes of the last call of the loop are the ones left in the buffer at \<open>current_offset\<close>.
\<close>

fun read_retry ::
  "int \<Rightarrow> nat \<Rightarrow> nat \<Rightarrow> byte list sysret list \<Rightarrow> proc
     \<Rightarrow> (int \<times> int \<times> byte list \<times> byte list sysret list \<times> proc) run" where
  "read_retry fd current_offset to_read [] p =
     No_return Blocked (issue (Call_read fd current_offset to_read) p)"
| "read_retry fd current_offset to_read (r # rs) p =
     (let p1 = issue (Call_read fd current_offset to_read) p;
          got = (case r of Done bs \<Rightarrow> take to_read bs | Fails e \<Rightarrow> []);
          bytes_read = (case r of Done bs \<Rightarrow> int (length got) | Fails e \<Rightarrow> - 1);
          p2 = (case r of Done bs \<Rightarrow> p1 | Fails e \<Rightarrow> p1\<lparr>errno := e\<rparr>);
          err = errno p2
      in if IsRetryable err then read_retry fd current_offset to_read rs p2
         else Returns (bytes_read, err, got, rs, p2))"

lemma read_retry_shorter:
  "read_retry fd off n rs p = Returns (br, err, got, rs', p') \<Longrightarrow> length rs' < length rs"
proof (induction rs arbitrary: p)
  case Nil
  then show ?case by simp
next
  case (Cons r rs)
  show ?case
  proof (cases "IsRetryable (errno (case r of Done bs \<Rightarrow> issue (Call_read fd off n) p
                                   | Fails e \<Rightarrow> (issue (Call_read fd off n) p)\<lparr>errno := e\<rparr>))")
    case True
    with Cons.prems have "read_retry fd off n rs
        (case r of Done bs \<Rightarrow> issue (Call_read fd off n) p
         | Fails e \<Rightarrow> (issue (Call_read fd off n) p)\<lparr>errno := e\<rparr>) = Returns (br, err, got, rs', p')"
      by (simp add: Let_def)
    from Cons.IH [OF this] show ?thesis by simp
  next
    case False
    with Cons.prems have "rs' = rs" by (simp add: Let_def)
    then show ?thesis by simp
  qed
qed

text \<open>
  After the loop: fewer bytes than a frame is an internal error (the descriptor stays
  open); a whole frame closes the descriptor and is returned. The buffer \<open>buf\<close> holds the
  bytes \<open>[0, current_offset)\<close> of the frame.
\<close>

definition ReadAll_finish ::
  "extern \<Rightarrow> int \<Rightarrow> nat \<Rightarrow> PipedData \<Rightarrow> byte list sysret list \<Rightarrow> proc
     \<Rightarrow> ((Status + PipedData) \<times> byte list sysret list \<times> proc) run" where
  "ReadAll_finish lib fd current_offset buf rs p =
     (if current_offset \<noteq> sizeof_PipedData then
        Returns (Inl (StatusOr_of_Status (InternalError (StrFormat lib
          ''Read less than expected from pipe (expected %uB, got %uB)''
          [Arg_uint sizeof_PipedData, Arg_uint current_offset]))), rs, p)
      else Returns (Inr buf, rs, issue (Call_close fd) p))"

function ReadAll_loop ::
  "extern \<Rightarrow> int \<Rightarrow> nat \<Rightarrow> PipedData \<Rightarrow> byte list sysret list \<Rightarrow> proc
     \<Rightarrow> ((Status + PipedData) \<times> byte list sysret list \<times> proc) run" where
  "ReadAll_loop lib fd current_offset buf rs p =
     (if current_offset < sizeof_PipedData then
        (case read_retry fd current_offset (sizeof_PipedData - current_offset) rs p of
           No_return s p' \<Rightarrow> No_return s p'
         | Returns (bytes_read, err, got, rs', p') \<Rightarrow>
             if bytes_read < 0
             then Returns (Inl (StatusOr_of_Status
                    (ErrnoToStatus lib err ''Failed to read from pipe'')), rs', p')
             else if bytes_read = 0 then ReadAll_finish lib fd current_offset buf rs' p'
             else ReadAll_loop lib fd (current_offset + nat bytes_read) (buf @ got) rs' p')
      else ReadAll_finish lib fd current_offset buf rs p)"
  by pat_completeness auto
termination
  by (relation "measure (\<lambda>(lib, fd, off, buf, rs, p). length rs)")
     (auto dest: read_retry_shorter)

declare ReadAll_loop.simps [simp del]

definition ReadAll ::
  "extern \<Rightarrow> int \<Rightarrow> byte list sysret list \<Rightarrow> proc
     \<Rightarrow> ((Status + PipedData) \<times> byte list sysret list \<times> proc) run" where
  "ReadAll lib fd rs p = ReadAll_loop lib fd 0 [] rs p"

section \<open>The data of the fixed-point loop\<close>

text \<open>
  \<open>X64Regs\<close> and \<open>AccessedAddrs\<close> are declared in headers of the repository; their fields
  are the ones the designated initialisers of \<open>FindAccessedAddrs\<close> name. Of the kernel's
  \<open>user_regs_struct\<close> only the sixteen general registers and \<open>rip\<close> are read.
\<close>

record X64Regs =
  rax :: "64 word"
  rbx :: "64 word"
  rcx :: "64 word"
  rdx :: "64 word"
  rsi :: "64 word"
  rdi :: "64 word"
  rsp :: "64 word"
  rbp :: "64 word"
  r8 :: "64 word"
  r9 :: "64 word"
  r10 :: "64 word"
  r11 :: "64 word"
  r12 :: "64 word"
  r13 :: "64 word"
  r14 :: "64 word"
  r15 :: "64 word"

record user_regs_struct = X64Regs +
  rip :: "64 word"

record AccessedAddrs =
  code_location :: uintptr_t
  block_size :: size_t
  accessed_blocks :: "uintptr_t list"
  initial_regs :: X64Regs

text \<open>
  \<open>x - (x % align)\<close> on unsigned 64-bit values. The remainder by zero is undefined in
  C++ and traps on x86-64, so it is a result of its own.
\<close>

definition AlignDown :: "uintptr_t \<Rightarrow> size_t \<Rightarrow> uintptr_t option" where
  "AlignDown x align = (if align = 0 then None else Some (x - (x mod align)))"

definition tab :: string where "tab = [CHR 0x09]"
definition newline :: string where "newline = [CHR 0x0A]"

definition DumpRegs :: "extern \<Rightarrow> user_regs_struct \<Rightarrow> string" where
  "DumpRegs lib regs = StrFormat lib
     (tab @ ''rsp=%016x rbp=%016x, rip=%016x'' @ newline @
      tab @ ''rax=%016x rbx=%016x, rcx=%016x'' @ newline @
      tab @ ''rdx=%016x rsi=%016x, rdi=%016x'' @ newline @
      tab @ '' r8=%016x  r9=%016x, r10=%016x'' @ newline @
      tab @ ''r11=%016x r12=%016x, r13=%016x'' @ newline @
      tab @ ''r14=%016x r15=%016x'')
     (map (\<lambda>r. Arg_uint (unat r))
       [rsp regs, rbp regs, rip regs, rax regs, rbx regs, rcx regs, rdx regs,
        rsi regs, rdi regs, r8 regs, r9 regs, r10 regs, r11 regs, r12 regs,
        r13 regs, r14 regs, r15 regs])"

section \<open>The parent supervisor\<close>

text \<open>
  What the kernel and the child answer to the parent during one trial: the results of
  \<open>pipe\<close> and \<open>fork\<close>, the status words the two \<open>waitpid\<close> calls store, the fault
  address and the registers \<open>ptrace\<close> reports, the value \<open>kill\<close> returns, and the
  results of the successive \<open>read\<close> calls on the pipe. The return values of \<open>waitpid\<close>
  and \<open>ptrace\<close> are ignored by the source, and so are absent here; what these calls
  and \<open>kill\<close> may do to \<open>errno\<close> is not modelled, the value of \<open>errno\<close> at entry
  being arbitrary.
\<close>

record trial =
  pipe_ret :: "(int \<times> int) sysret"
  fork_ret :: "int sysret"
  first_status :: int
  second_status :: int
  si_addr :: uintptr_t
  registers :: user_regs_struct
  kill_ret :: int
  reads :: "byte list sysret list"

definition ParentProcessInner ::
  "extern \<Rightarrow> trial \<Rightarrow> int \<Rightarrow> AccessedAddrs \<Rightarrow> proc \<Rightarrow> (Status \<times> AccessedAddrs \<times> proc) run" where
  "ParentProcessInner lib t child_pid accessed_addrs p =
     (let p1 = issue (Call_waitpid child_pid) p;
          status = first_status t
      in if \<not> WIFSTOPPED status then
           Returns (InternalError (StrFormat lib
             ''Child terminated with an unexpected status: %d'' [Arg_int status]),
             accessed_addrs, p1)
         else
           let p2 = issue (Call_ptrace PTRACE_CONT child_pid) p1;
               p3 = issue (Call_waitpid child_pid) p2;
               status = second_status t
           in if \<not> WIFSTOPPED status then
                Returns (InternalError (StrFormat lib
                  ''Child terminated with an unexpected status: %d'' [Arg_int status]),
                  accessed_addrs, p3)
              else
                let signal = WSTOPSIG status
                in if signal = SIGSEGV then
                     (let p4 = issue (Call_ptrace PTRACE_GETSIGINFO child_pid) p3
                      in case AlignDown (si_addr t) (block_size accessed_addrs) of
                           None \<Rightarrow> No_return Trapped p4
                         | Some addr \<Rightarrow>
                             if addr \<notin> set (accessed_blocks accessed_addrs)
                             then Returns (OkStatus,
                                    accessed_addrs\<lparr>accessed_blocks :=
                                      accessed_blocks accessed_addrs @ [addr]\<rparr>, p4)
                             else Returns (OkStatus, accessed_addrs, p4))
                   else if signal = SIGABRT then Returns (OkStatus, accessed_addrs, p3)
                   else if signal = SIGFPE then
                     Returns (InvalidArgumentError ''Floating point exception'',
                       accessed_addrs, p3)
                   else
                     let p4 = issue (Call_ptrace PTRACE_GETREGS child_pid) p3
                     in if signal = SIGBUS then
                          (let p5 = issue (Call_ptrace PTRACE_GETSIGINFO child_pid) p4
                           in Returns (InternalError (StrFormat lib
                                (''Child stopped with unexpected signal: %s, address %ul'' @ newline @ ''%s'')
                                [Arg_str (strsignal lib signal), Arg_uint (unat (si_addr t)),
                                 Arg_str (DumpRegs lib (registers t))]),
                                accessed_addrs, p5))
                        else
                          Returns (InternalError (StrFormat lib
                            (''Child stopped with unexpected signal: %s'' @ newline @ ''%s'')
                            [Arg_str (strsignal lib signal),
                             Arg_str (DumpRegs lib (registers t))]),
                            accessed_addrs, p4))"

definition ParentProcess ::
  "extern \<Rightarrow> trial \<Rightarrow> int \<Rightarrow> int \<Rightarrow> AccessedAddrs \<Rightarrow> proc
     \<Rightarrow> (Status \<times> AccessedAddrs \<times> proc) run" where
  "ParentProcess lib t child_pid pipe_read_fd accessed_addrs p =
     (case ParentProcessInner lib t child_pid accessed_addrs p of
        No_return s p1 \<Rightarrow> No_return s p1
      | Returns (result, accessed_addrs1, p1) \<Rightarrow>
          let p2 = issue (Call_kill child_pid SIGKILL) p1;
              err = kill_ret t
          in if err \<noteq> 0 then
               Returns (InternalError (StrFormat lib ''Failed to kill child process: %s''
                 [Arg_str (strerror lib err)]), accessed_addrs1, p2)
             else
               let p3 = issue (Call_waitpid child_pid) p2
               in if \<not> ok result then Returns (result, accessed_addrs1, p3)
                  else
                    (case ReadAll lib pipe_read_fd (reads t) p3 of
                       No_return s p4 \<Rightarrow> No_return s p4
                     | Returns (pipe_data, rs, p4) \<Rightarrow>
                         (case pipe_data of
                            Inl st \<Rightarrow> Returns (st, accessed_addrs1, p4)
                          | Inr d \<Rightarrow>
                              if status_code d \<noteq> kOk then
                                (case status_message d of
                                   None \<Rightarrow> No_return Undefined p4
                                 | Some m \<Rightarrow>
                                     Returns (absl_Status (status_code d) m,
                                       accessed_addrs1, p4))
                              else
                                Returns (OkStatus,
                                  accessed_addrs1\<lparr>code_location := code_address d\<rparr>, p4))))"

text \<open>
  \<open>fork\<close> returns the child's process id in the parent, 0 in the child and \<open>-1\<close> on
  failure. The child's side closes the read end and runs \<open>ChildProcess\<close> (modelled
  below), which never returns to the caller. The block is used on the child's side only.
\<close>

definition ForkAndTestAddresses ::
  "extern \<Rightarrow> trial \<Rightarrow> byte list \<Rightarrow> AccessedAddrs \<Rightarrow> proc
     \<Rightarrow> (Status \<times> AccessedAddrs \<times> proc) run" where
  "ForkAndTestAddresses lib t basic_block accessed_addrs p =
     (let p1 = issue Call_pipe p
      in case pipe_ret t of
           Fails e \<Rightarrow>
             (let p2 = p1\<lparr>errno := e\<rparr>; err = errno p2
              in Returns (ErrnoToStatus lib err
                   ''Failed to open pipe for communication with child process: %s'',
                   accessed_addrs, p2))
         | Done (pipe_read_fd, pipe_write_fd) \<Rightarrow>
             let p2 = issue Call_fork p1;
                 pid = (case fork_ret t of Done v \<Rightarrow> v | Fails e \<Rightarrow> - 1);
                 p3 = (case fork_ret t of Done v \<Rightarrow> p2 | Fails e \<Rightarrow> p2\<lparr>errno := e\<rparr>)
             in if pid = - 1 then
                  (let err = errno p3
                   in Returns (ErrnoToStatus lib err ''Failed to fork'', accessed_addrs, p3))
                else if pid = 0 then No_return In_child (issue (Call_close pipe_read_fd) p3)
                else
                  let p4 = issue (Call_close pipe_write_fd) p3
                  in ParentProcess lib t pid pipe_read_fd accessed_addrs p4)"

section \<open>The child executor\<close>

text \<open>
  What the kernel answers to the child: the result of \<open>munmap\<close>, the result of the
  \<open>i\<close>-th \<open>mmap\<close> call (the address of the mapping, or a failure, which returns
  \<open>MAP_FAILED\<close>), and the results of the successive \<open>write\<close> calls on the pipe.
\<close>

record child_env =
  munmap_ret :: "unit sysret"
  mmap_ret :: "nat \<Rightarrow> uintptr_t sysret"
  writes :: "nat sysret list"

definition kDefaultCodeLocation :: uintptr_t where
  "kDefaultCodeLocation = 0x2b0000000000"

definition MAP_FAILED :: uintptr_t where
  "MAP_FAILED = - 1"

definition after_call :: "'a sysret \<Rightarrow> proc \<Rightarrow> proc" where
  "after_call r p = (case r of Done v \<Rightarrow> p | Fails e \<Rightarrow> p\<lparr>errno := e\<rparr>)"

text \<open>
  The child never returns. Its run ends in \<open>abort\<close>, in the jump into the mapped code, or
  in a \<open>write\<close> that is never answered; \<open>sent\<close> is the frame it handed to \<open>WriteAll\<close>,
  if it got that far.
\<close>

datatype child_end = Abort | Enter_code | Stuck

record child_run =
  sent :: "PipedData option"
  ending :: child_end
  final :: proc

text \<open>\<open>rep movsb\<close>: \<open>count\<close> bytes of \<open>src\<close> to offset \<open>dst\<close> of the object.\<close>

definition repmovsb :: "byte list \<Rightarrow> nat \<Rightarrow> byte list \<Rightarrow> nat \<Rightarrow> byte list" where
  "repmovsb obj dst src count = store obj dst (take count src)"

definition AbortChildProcess_piped_data :: "Status \<Rightarrow> PipedData" where
  "AbortChildProcess_piped_data status =
     (let piped_data = MakePipedData;
          piped_data = set_status_code piped_data (code status);
          message_length = min (length (message status)) (sizeof_status_message - 1)
      in repmovsb piped_data offsetof_status_message
           (map of_char (message status)) message_length)"

definition AbortChildProcess ::
  "extern \<Rightarrow> int \<Rightarrow> Status \<Rightarrow> nat sysret list \<Rightarrow> proc \<Rightarrow> child_run" where
  "AbortChildProcess lib pipe_write_fd status ws p =
     (let piped_data = AbortChildProcess_piped_data status
      in case WriteAll lib pipe_write_fd piped_data ws p of
           No_return s p1 \<Rightarrow> \<lparr>sent = Some piped_data, ending = Stuck, final = p1\<rparr>
         | Returns (ignored, rs, p1) \<Rightarrow>
             \<lparr>sent = Some piped_data, ending = Abort, final = issue Call_abort p1\<rparr>)"

text \<open>
  The fill loop \<open>for (i = 0; i < block_size; i += 4) block[i] = 8\<close> on a fresh anonymous
  mapping, which the kernel hands out zeroed. The index is an \<open>int\<close> in the source; a
  block is a page, far below the range of \<open>int\<close>.
\<close>

function fill_block :: "nat \<Rightarrow> nat \<Rightarrow> byte list \<Rightarrow> byte list" where
  "fill_block i n block = (if i < n then fill_block (i + 4) n (block[i := 8]) else block)"
  by pat_completeness auto
termination
  by (relation "measure (\<lambda>(i, n, block). n - i)") auto

declare fill_block.simps [simp del]

text \<open>
  One pass of the loop over the blocks found so far, for the location
  \<open>accessed_location\<close>; it is the \<open>i\<close>-th \<open>mmap\<close> call. \<open>Inl\<close> is a run that ended
  in \<open>AbortChildProcess\<close>.
\<close>

definition map_block ::
  "extern \<Rightarrow> child_env \<Rightarrow> int \<Rightarrow> size_t \<Rightarrow> uintptr_t \<Rightarrow> nat \<Rightarrow> proc \<Rightarrow> child_run + proc" where
  "map_block lib env pipe_write_fd bsize accessed_location i p =
     (let location_ptr = accessed_location;
          p1 = after_call (mmap_ret env i)
                 (issue (Call_mmap location_ptr (unat bsize) PROT_READ_WRITE) p);
          mapped_address = (case mmap_ret env i of Done a \<Rightarrow> a | Fails e \<Rightarrow> MAP_FAILED)
      in if mapped_address = MAP_FAILED then
           Inl (AbortChildProcess lib pipe_write_fd
             (InternalError (StrFormat lib
                ''mapping previously discovered address %p failed'' [Arg_ptr location_ptr]))
             (writes env) p1)
         else if mapped_address \<noteq> location_ptr then
           Inl (AbortChildProcess lib pipe_write_fd
             (InvalidArgumentError (StrFormat lib
                (''tried to map previously discovered address %p, but mmap '' @
                 ''couldn't map this address'' @ newline) [Arg_ptr location_ptr]))
             (writes env) p1)
         else
           let block = fill_block 0 (unat bsize) (replicate (unat bsize) 0)
           in Inr (issue (Store mapped_address block) p1))"

fun map_blocks ::
  "extern \<Rightarrow> child_env \<Rightarrow> int \<Rightarrow> size_t \<Rightarrow> uintptr_t list \<Rightarrow> nat \<Rightarrow> proc
     \<Rightarrow> child_run + nat \<times> proc" where
  "map_blocks lib env pipe_write_fd bsize [] i p = Inr (i, p)"
| "map_blocks lib env pipe_write_fd bsize (accessed_location # rest) i p =
     (case map_block lib env pipe_write_fd bsize accessed_location i p of
        Inl r \<Rightarrow> Inl r
      | Inr p2 \<Rightarrow> map_blocks lib env pipe_write_fd bsize rest (Suc i) p2)"

definition ChildProcess ::
  "extern \<Rightarrow> child_env \<Rightarrow> byte list \<Rightarrow> int \<Rightarrow> AccessedAddrs \<Rightarrow> proc \<Rightarrow> child_run" where
  "ChildProcess lib env basic_block pipe_write_fd accessed_addrs p =
     (let p1 = issue (Call_ptrace PTRACE_TRACEME 0) p;
          p2 = issue (Call_raise SIGSTOP) p1;
          p3 = after_call (munmap_ret env) (issue (Call_munmap 0x800000000 0x10000) p2)
      in case map_blocks lib env pipe_write_fd (block_size accessed_addrs)
                (accessed_blocks accessed_addrs) 0 p3 of
           Inl r \<Rightarrow> r
         | Inr (i, p4) \<Rightarrow>
             let before_block = GetGematriaBeforeBlockCode lib;
                 after_block = GetGematriaAfterBlockCode lib;
                 total_block_size = length before_block + length basic_block + length after_block;
                 desired_code_location =
                   (if code_location accessed_addrs = 0 then kDefaultCodeLocation
                    else code_location accessed_addrs);
                 p5 = after_call (mmap_ret env i)
                        (issue (Call_mmap desired_code_location total_block_size PROT_WRITE_EXEC) p4);
                 mapped_address = (case mmap_ret env i of Done a \<Rightarrow> a | Fails e \<Rightarrow> MAP_FAILED)
             in if mapped_address = MAP_FAILED then
                  \<lparr>sent = None, ending = Abort, final = issue Call_abort (issue Call_perror p5)\<rparr>
                else
                  let piped_data = MakePipedData;
                      piped_data = set_status_code piped_data (code OkStatus);
                      piped_data = set_code_address piped_data mapped_address
                  in (case WriteAll lib pipe_write_fd piped_data (writes env) p5 of
                       No_return s p6 \<Rightarrow> \<lparr>sent = Some piped_data, ending = Stuck, final = p6\<rparr>
                     | Returns (status, rs, p6) \<Rightarrow>
                         if \<not> ok status then
                           \<lparr>sent = Some piped_data, ending = Abort, final = issue Call_abort p6\<rparr>
                         else
                           let p7 = issue (Store mapped_address before_block) p6;
                               p8 = issue (Store (mapped_address + of_nat (length before_block))
                                      basic_block) p7;
                               p9 = issue (Store (mapped_address + of_nat (length before_block)
                                      + of_nat (length basic_block)) after_block) p8
                           in \<lparr>sent = Some piped_data, ending = Enter_code,
                               final = issue (Call_code mapped_address) p9\<rparr>))"

section \<open>The register randomiser\<close>

text \<open>
  The generator is the sequence of values the uniform distribution over the indices of
  \<open>kValues\<close> returns; drawing takes the first and leaves the rest.
\<close>

datatype pick = Index_0 | Index_1 | Index_2

type_synonym BitGen = "nat \<Rightarrow> pick"

definition kValues :: "64 word list" where
  "kValues = [0, 0x15000, 0x1000000]"

fun index_of :: "pick \<Rightarrow> nat" where
  "index_of Index_0 = 0"
| "index_of Index_1 = 1"
| "index_of Index_2 = 2"

definition random_reg :: "BitGen \<Rightarrow> 64 word \<times> BitGen" where
  "random_reg gen = (kValues ! index_of (gen 0), \<lambda>i. gen (Suc i))"

definition RandomiseRegs :: "BitGen \<Rightarrow> X64Regs \<Rightarrow> X64Regs \<times> BitGen" where
  "RandomiseRegs gen regs =
     (let (v, gen) = random_reg gen; regs = regs\<lparr>rax := v\<rparr>;
          (v, gen) = random_reg gen; regs = regs\<lparr>rbx := v\<rparr>;
          (v, gen) = random_reg gen; regs = regs\<lparr>rcx := v\<rparr>;
          (v, gen) = random_reg gen; regs = regs\<lparr>rdx := v\<rparr>;
          (v, gen) = random_reg gen; regs = regs\<lparr>rsi := v\<rparr>;
          (v, gen) = random_reg gen; regs = regs\<lparr>rdi := v\<rparr>;
          (v, gen) = random_reg gen; regs = regs\<lparr>rsp := v\<rparr>;
          (v, gen) = random_reg gen; regs = regs\<lparr>rbp := v\<rparr>;
          (v, gen) = random_reg gen; regs = regs\<lparr>r8 := v\<rparr>;
          (v, gen) = random_reg gen; regs = regs\<lparr>r9 := v\<rparr>;
          (v, gen) = random_reg gen; regs = regs\<lparr>r10 := v\<rparr>;
          (v, gen) = random_reg gen; regs = regs\<lparr>r11 := v\<rparr>;
          (v, gen) = random_reg gen; regs = regs\<lparr>r12 := v\<rparr>;
          (v, gen) = random_reg gen; regs = regs\<lparr>r13 := v\<rparr>;
          (v, gen) = random_reg gen; regs = regs\<lparr>r14 := v\<rparr>;
          (v, gen) = random_reg gen; regs = regs\<lparr>r15 := v\<rparr>
      in (regs, gen))"

section \<open>The convergence driver\<close>

definition kInitialRegValue :: "64 word" where
  "kInitialRegValue = 0x15000"

definition initial_accessed_addrs :: "size_t \<Rightarrow> AccessedAddrs" where
  "initial_accessed_addrs pagesize =
     \<lparr>code_location = 0,
      block_size = pagesize,
      accessed_blocks = [],
      initial_regs =
        \<lparr>rax = kInitialRegValue, rbx = kInitialRegValue, rcx = kInitialRegValue,
         rdx = kInitialRegValue, rsi = kInitialRegValue, rdi = kInitialRegValue,
         rsp = kInitialRegValue, rbp = kInitialRegValue, r8 = kInitialRegValue,
         r9 = kInitialRegValue, r10 = kInitialRegValue, r11 = kInitialRegValue,
         r12 = kInitialRegValue, r13 = kInitialRegValue, r14 = kInitialRegValue,
         r15 = kInitialRegValue\<rparr>\<rparr>"

text \<open>
  The part of the loop body after the trial: what the status of the trial does to the
  state. Either the function returns the status, or the body falls through to \<open>n++\<close> and
  the loop condition with the addresses and the generator it leaves.
\<close>

datatype body_result = Return_status Status | Fall_through AccessedAddrs BitGen

definition after_trial :: "nat \<Rightarrow> Status \<Rightarrow> AccessedAddrs \<Rightarrow> BitGen \<Rightarrow> body_result" where
  "after_trial n status accessed_addrs gen =
     (if IsInvalidArgument status then
        if n > 100 then Return_status status
        else
          let cleared = accessed_addrs\<lparr>accessed_blocks := []\<rparr>;
              (regs, gen') = RandomiseRegs gen (initial_regs cleared)
          in Fall_through (cleared\<lparr>initial_regs := regs\<rparr>) gen'
      else if \<not> ok status then Return_status status
      else Fall_through accessed_addrs gen)"

text \<open>
  The \<open>do ... while\<close> loop, one scripted trial per pass; \<open>n\<close> counts the passes (an
  \<open>int\<close> in the source, a natural number here). The result carries the trials that were
  not run. A script that ends before the loop does leaves the function running.
\<close>

fun FindAccessedAddrs_loop ::
  "extern \<Rightarrow> byte list \<Rightarrow> nat \<Rightarrow> AccessedAddrs \<Rightarrow> BitGen \<Rightarrow> trial list \<Rightarrow> proc
     \<Rightarrow> ((Status + AccessedAddrs) \<times> trial list \<times> proc) run" where
  "FindAccessedAddrs_loop lib basic_block n accessed_addrs gen [] p = No_return Blocked p"
| "FindAccessedAddrs_loop lib basic_block n accessed_addrs gen (t # ts) p =
     (let num_accessed_blocks = length (accessed_blocks accessed_addrs)
      in case ForkAndTestAddresses lib t basic_block accessed_addrs p of
           No_return s p1 \<Rightarrow> No_return s p1
         | Returns (status, accessed_addrs1, p1) \<Rightarrow>
             (case after_trial n status accessed_addrs1 gen of
                Return_status st \<Rightarrow> Returns (Inl st, ts, p1)
              | Fall_through accessed_addrs2 gen2 \<Rightarrow>
                  if length (accessed_blocks accessed_addrs2) \<noteq> num_accessed_blocks
                  then FindAccessedAddrs_loop lib basic_block (n + 1) accessed_addrs2 gen2 ts p1
                  else Returns (Inr accessed_addrs2, ts, p1)))"

definition FindAccessedAddrs ::
  "extern \<Rightarrow> size_t \<Rightarrow> BitGen \<Rightarrow> byte list \<Rightarrow> trial list \<Rightarrow> proc
     \<Rightarrow> ((Status + AccessedAddrs) \<times> trial list \<times> proc) run" where
  "FindAccessedAddrs lib pagesize gen basic_block ts p =
     FindAccessedAddrs_loop lib basic_block 0 (initial_accessed_addrs pagesize) gen ts p"

section \<open>Concrete environments\<close>

text \<open>
  A library whose formatter returns the format string, a trial in which the child stops
  twice (at its own \<open>SIGSTOP\<close>, then with the signal \<open>sig\<close> and the fault address
  \<open>addr\<close>), a process that has issued no call yet, the frame the child sends once the
  code is mapped at \<open>a\<close>, and the calls the parent issues in such a trial before it
  classifies the second stop.
\<close>

definition plain_lib :: extern where
  "plain_lib = \<lparr>ErrnoToStatus = (\<lambda>e m. Status 2 m), StrFormat = (\<lambda>f args. f),
     strerror = (\<lambda>e. ''error''), strsignal = (\<lambda>s. ''signal''),
     GetGematriaBeforeBlockCode = [0x90], GetGematriaAfterBlockCode = [0x0F, 0x0B]\<rparr>"

definition zero_regs :: user_regs_struct where
  "zero_regs = \<lparr>rax = 0, rbx = 0, rcx = 0, rdx = 0, rsi = 0, rdi = 0, rsp = 0, rbp = 0,
     r8 = 0, r9 = 0, r10 = 0, r11 = 0, r12 = 0, r13 = 0, r14 = 0, r15 = 0, rip = 0\<rparr>"

definition stop_trial :: "int \<Rightarrow> uintptr_t \<Rightarrow> byte list sysret list \<Rightarrow> trial" where
  "stop_trial sig addr rs = \<lparr>pipe_ret = Done (3, 4), fork_ret = Done 1000,
     first_status = W_STOPCODE SIGSTOP, second_status = W_STOPCODE sig, si_addr = addr,
     registers = zero_regs, kill_ret = 0, reads = rs\<rparr>"

definition fresh :: proc where "fresh = \<lparr>errno = 0, calls = []\<rparr>"

definition ok_frame :: "uintptr_t \<Rightarrow> PipedData" where
  "ok_frame a = set_code_address (set_status_code MakePipedData (code OkStatus)) a"

definition trial_calls :: "event list" where
  "trial_calls = [Call_pipe, Call_fork, Call_close 4, Call_waitpid 1000,
     Call_ptrace PTRACE_CONT 1000, Call_waitpid 1000]"

text \<open>
  The address of the \<open>i\<close>-th page, and \<open>k\<close> trials, from the \<open>j\<close>-th page on, each
  of which faults on the next page and sends its frame.
\<close>

definition page :: "nat \<Rightarrow> uintptr_t" where
  "page i = of_nat (i * 0x1000)"

definition growing_trials :: "nat \<Rightarrow> nat \<Rightarrow> trial list" where
  "growing_trials j k =
     map (\<lambda>i. stop_trial SIGSEGV (page i) [Done (ok_frame kDefaultCodeLocation)]) [j..<j + k]"

text \<open>
  A kernel that grants the child everything at the address asked for (the code at the
  default location), one that has no memory for any mapping, one that maps the first block
  and has no memory after that, and one that refuses the \<open>munmap\<close> and grants the rest.
\<close>

definition willing_env :: child_env where
  "willing_env = \<lparr>munmap_ret = Done (), mmap_ret = (\<lambda>i. Done kDefaultCodeLocation),
     writes = [Done 1040]\<rparr>"

definition no_memory_env :: child_env where
  "no_memory_env = \<lparr>munmap_ret = Done (), mmap_ret = (\<lambda>i. Fails ENOMEM), writes = []\<rparr>"

definition one_block_env :: child_env where
  "one_block_env = \<lparr>munmap_ret = Done (),
     mmap_ret = (\<lambda>i. if i = 0 then Done 0x50015000 else Fails ENOMEM), writes = [Done 1040]\<rparr>"

definition unmap_fails_env :: child_env where
  "unmap_fails_env = \<lparr>munmap_ret = Fails EINVAL,
     mmap_ret = (\<lambda>i. if i = 0 then Done 0x50015000 else Done kDefaultCodeLocation),
     writes = [Done 1040]\<rparr>"

section \<open>Predicates on calls\<close>

text \<open>
  Calls on the pipe's read end (\<open>read\<close> or \<open>close\<close>), \<open>read\<close> calls on it, the
  \<open>waitpid\<close> and \<open>ptrace\<close> calls on a child, and the state after the child has been
  sent \<open>SIGKILL\<close> and waited for.
\<close>

definition pipe_call :: "int \<Rightarrow> event \<Rightarrow> bool" where
  "pipe_call fd e = (case e of Call_read f off n \<Rightarrow> f = fd | Call_close f \<Rightarrow> f = fd | _ \<Rightarrow> False)"

definition read_call :: "int \<Rightarrow> event \<Rightarrow> bool" where
  "read_call fd e = (case e of Call_read f off n \<Rightarrow> f = fd | _ \<Rightarrow> False)"

definition trace_call :: "int \<Rightarrow> event \<Rightarrow> bool" where
  "trace_call pid e = (case e of Call_waitpid c \<Rightarrow> c = pid | Call_ptrace r c \<Rightarrow> c = pid | _ \<Rightarrow> False)"

definition reaped :: "int \<Rightarrow> proc \<Rightarrow> proc" where
  "reaped pid p = issue (Call_waitpid pid) (issue (Call_kill pid SIGKILL) p)"

text \<open>
  The \<open>read\<close> calls by which \<open>ReadAll\<close> takes the pieces \<open>chunks\<close> one after the
  other, the first at offset \<open>off\<close>.
\<close>

fun read_calls :: "int \<Rightarrow> nat \<Rightarrow> byte list list \<Rightarrow> event list" where
  "read_calls fd off [] = []"
| "read_calls fd off (c # cs) =
     Call_read fd off (sizeof_PipedData - off) # read_calls fd (off + length c) cs"

text \<open>
  For the child: one state continues another, or continues it with a given call first;
  the frames \<open>AbortChildProcess\<close> builds for the two failures of mapping a block; the
  address and the size the child asks for when it maps the code; and the state after the
  child has stopped itself and tried the \<open>munmap\<close>.
\<close>

definition extends :: "proc \<Rightarrow> proc \<Rightarrow> bool" where
  "extends p q = (\<exists>zs. calls q = calls p @ zs)"

definition starts :: "proc \<Rightarrow> event \<Rightarrow> proc \<Rightarrow> bool" where
  "starts p e q = (\<exists>zs. calls q = calls p @ e # zs)"

definition failure_frame :: "PipedData option \<Rightarrow> bool" where
  "failure_frame f =
     (\<exists>m. f = Some (AbortChildProcess_piped_data (InternalError m))
        \<or> f = Some (AbortChildProcess_piped_data (InvalidArgumentError m)))"

definition desired_code_location :: "AccessedAddrs \<Rightarrow> uintptr_t" where
  "desired_code_location aa =
     (if code_location aa = 0 then kDefaultCodeLocation else code_location aa)"

definition total_block_size :: "extern \<Rightarrow> byte list \<Rightarrow> nat" where
  "total_block_size lib basic_block =
     length (GetGematriaBeforeBlockCode lib) + length basic_block
       + length (GetGematriaAfterBlockCode lib)"

definition stopped_and_unmapped :: "child_env \<Rightarrow> proc \<Rightarrow> proc" where
  "stopped_and_unmapped env p =
     after_call (munmap_ret env) (issue (Call_munmap 0x800000000 0x10000)
       (issue (Call_raise SIGSTOP) (issue (Call_ptrace PTRACE_TRACEME 0) p)))"

text \<open>
  A state after further calls; the value the \<open>i\<close>-th \<open>mmap\<close> call returns; the calls
  of one pass over a block that is mapped where it was asked for (the \<open>mmap\<close> and the
  fill); the kernel maps each of the blocks \<open>locs\<close>, in this order, at its address; and
  the status the child reports when the \<open>i\<close>-th \<open>mmap\<close> call, for the block at
  \<open>loc\<close>, did not.
\<close>

definition then_calls :: "proc \<Rightarrow> event list \<Rightarrow> proc" where
  "then_calls p evs = p\<lparr>calls := calls p @ evs\<rparr>"

definition mmap_result :: "child_env \<Rightarrow> nat \<Rightarrow> uintptr_t" where
  "mmap_result env i = (case mmap_ret env i of Done a \<Rightarrow> a | Fails e \<Rightarrow> MAP_FAILED)"

definition block_calls :: "size_t \<Rightarrow> uintptr_t \<Rightarrow> event list" where
  "block_calls bsize loc =
     [Call_mmap loc (unat bsize) PROT_READ_WRITE,
      Store loc (fill_block 0 (unat bsize) (replicate (unat bsize) 0))]"

definition blocks_mapped :: "child_env \<Rightarrow> uintptr_t list \<Rightarrow> bool" where
  "blocks_mapped env locs =
     (\<forall>j\<in>set [0..<length locs]. mmap_result env j = locs ! j \<and> locs ! j \<noteq> MAP_FAILED)"

definition block_failure :: "extern \<Rightarrow> child_env \<Rightarrow> nat \<Rightarrow> uintptr_t \<Rightarrow> Status" where
  "block_failure lib env i loc =
     (if mmap_result env i = MAP_FAILED
      then InternalError (StrFormat lib
             ''mapping previously discovered address %p failed'' [Arg_ptr loc])
      else InvalidArgumentError (StrFormat lib
             (''tried to map previously discovered address %p, but mmap '' @
              ''couldn't map this address'' @ newline) [Arg_ptr loc]))"

text \<open>
  Two states with the same calls whose \<open>errno\<close> values are both retryable codes or both
  not, and two runs of the child with the same frame and the same ending that end in such
  states.
\<close>

definition alike :: "proc \<Rightarrow> proc \<Rightarrow> bool" where
  "alike p q = (calls p = calls q \<and> IsRetryable (errno p) = IsRetryable (errno q))"

definition same_run :: "child_run \<Rightarrow> child_run \<Rightarrow> bool" where
  "same_run r r' = (sent r = sent r' \<and> ending r = ending r' \<and> alike (final r) (final r'))"

text \<open>
  The invariant of \<open>accessed_blocks\<close>: every element is a multiple of \<open>block_size\<close>
  and no element occurs twice.
\<close>

definition blocks_aligned_distinct :: "AccessedAddrs \<Rightarrow> bool" where
  "blocks_aligned_distinct aa =
     ((\<forall>a\<in>set (accessed_blocks aa). unat (block_size aa) dvd unat a)
      \<and> distinct (accessed_blocks aa))"

section \<open>Wait statuses and alignment\<close>

lemma WIFSTOPPED_W_STOPCODE [simp]: "WIFSTOPPED (W_STOPCODE sig)"
  by (simp add: WIFSTOPPED_def W_STOPCODE_def)

lemma WSTOPSIG_W_STOPCODE: "0 \<le> sig \<Longrightarrow> sig < 256 \<Longrightarrow> WSTOPSIG (W_STOPCODE sig) = sig"
  by (simp add: WSTOPSIG_def W_STOPCODE_def)

lemma WSTOPSIG_signals [simp]:
  "WSTOPSIG (W_STOPCODE SIGSEGV) = SIGSEGV" "WSTOPSIG (W_STOPCODE SIGFPE) = SIGFPE"
  "WSTOPSIG (W_STOPCODE SIGABRT) = SIGABRT" "WSTOPSIG (W_STOPCODE SIGSTOP) = SIGSTOP"
  by (simp_all add: WSTOPSIG_W_STOPCODE SIGSEGV_def SIGFPE_def SIGABRT_def SIGSTOP_def)

lemma signal_neq [simp]:
  "SIGABRT \<noteq> SIGSEGV" "SIGSEGV \<noteq> SIGABRT" "SIGFPE \<noteq> SIGSEGV" "SIGSEGV \<noteq> SIGFPE"
  "SIGFPE \<noteq> SIGABRT" "SIGABRT \<noteq> SIGFPE" "SIGBUS \<noteq> SIGSEGV" "SIGBUS \<noteq> SIGABRT"
  "SIGBUS \<noteq> SIGFPE"
  by (simp_all add: SIGABRT_def SIGSEGV_def SIGFPE_def SIGBUS_def)

lemma stop_trial_simps [simp]:
  "pipe_ret (stop_trial sig addr rs) = Done (3, 4)"
  "fork_ret (stop_trial sig addr rs) = Done 1000"
  "first_status (stop_trial sig addr rs) = W_STOPCODE SIGSTOP"
  "second_status (stop_trial sig addr rs) = W_STOPCODE sig"
  "si_addr (stop_trial sig addr rs) = addr"
  "kill_ret (stop_trial sig addr rs) = 0"
  "reads (stop_trial sig addr rs) = rs"
  by (simp_all add: stop_trial_def)

lemma AlignDown_Some:
  "align \<noteq> 0 \<Longrightarrow> AlignDown x align = Some (x - x mod align)"
  by (simp add: AlignDown_def)

lemma word_mod_le_self: "(x :: 'a::len word) mod y \<le> x"
  by (simp add: word_le_nat_alt unat_mod_distrib)

lemma unat_align:
  "unat ((x :: 'a::len word) - x mod y) = unat x - unat x mod unat y"
  by (simp add: unat_sub word_mod_le_self unat_mod_distrib)

lemma AlignDown_multiple:
  assumes "AlignDown x align = Some a"
  shows "unat align dvd unat a" and "a \<le> x" and "unat x - unat a < unat align"
proof -
  from assms have nz: "align \<noteq> 0" and a: "a = x - x mod align"
    by (auto simp: AlignDown_def split: if_splits)
  from nz have pos: "0 < unat align" by (simp add: unat_gt_0)
  show "unat align dvd unat a"
    unfolding a unat_align by (simp add: dvd_minus_mod)
  show "a \<le> x"
    unfolding a by (simp add: word_le_nat_alt unat_align)
  have "unat x - (unat x - unat x mod unat align) = unat x mod unat align"
    by simp
  with pos show "unat x - unat a < unat align"
    unfolding a unat_align by simp
qed

section \<open>Statuses\<close>

lemma StatusOr_of_Status_not_ok: "\<not> ok (StatusOr_of_Status s)"
  by (simp add: StatusOr_of_Status_def ok_def InternalError_def kInternal_def kOk_def)

lemma InternalError_not_ok: "\<not> ok (InternalError m)"
  by (simp add: ok_def InternalError_def kInternal_def kOk_def)

lemma InvalidArgumentError_not_ok: "\<not> ok (InvalidArgumentError m)"
  by (simp add: ok_def InvalidArgumentError_def kInvalidArgument_def kOk_def)

lemma ok_OkStatus: "ok OkStatus"
  by (simp add: ok_def OkStatus_def)

lemma absl_Status_not_ok: "c \<noteq> kOk \<Longrightarrow> \<not> ok (absl_Status c m)"
  by (simp add: absl_Status_def ok_def)

lemma IsInvalidArgument_simps [simp]:
  "IsInvalidArgument (InvalidArgumentError m)" "\<not> IsInvalidArgument OkStatus"
  "\<not> IsInvalidArgument (InternalError m)"
  by (simp_all add: IsInvalidArgument_def InvalidArgumentError_def OkStatus_def
        InternalError_def kInvalidArgument_def kOk_def kInternal_def)

lemma ok_not_invalid: "ok s \<Longrightarrow> \<not> IsInvalidArgument s"
  by (simp add: ok_def IsInvalidArgument_def kOk_def kInvalidArgument_def)

section \<open>The bytes of the frame\<close>

lemma le_bytes_Suc: "le_bytes (Suc n) w = ucast w # le_bytes n (drop_bit 8 w)"
proof -
  have "[0..<Suc n] = 0 # map Suc [0..<n]"
    by (simp add: upt_conv_Cons map_Suc_upt del: upt_Suc)
  then show ?thesis
    by (simp add: le_bytes_def comp_def drop_bit_drop_bit add.commute del: upt_Suc)
qed

lemma le_word_Cons: "le_word (b # bs) = ucast b OR push_bit 8 (le_word bs)"
  by (simp add: le_word_def)

lemma le_word_le_bytes: "le_word (le_bytes n w) = take_bit (8 * n) w"
proof (induction n arbitrary: w)
  case 0
  show ?case by (simp add: le_bytes_def le_word_def)
next
  case (Suc n)
  have "(ucast (ucast w :: byte) :: 'a word) OR push_bit 8 (take_bit (8 * n) (drop_bit 8 w))
        = take_bit (8 * Suc n) w"
  proof (rule bit_word_eqI)
    fix k assume k: "k < LENGTH('a)"
    show "bit (ucast (ucast w :: byte) OR push_bit 8 (take_bit (8 * n) (drop_bit 8 w))) k
          = bit (take_bit (8 * Suc n) w) k"
    proof (cases "k < 8")
      case True
      with k show ?thesis by (auto simp add: bit_simps)
    next
      case False
      then have "8 + (k - 8) = k" by simp
      with False k show ?thesis by (auto simp add: bit_simps)
    qed
  qed
  then show ?case by (simp add: le_bytes_Suc le_word_Cons Suc.IH)
qed

lemma le_word_le_bytes_32: "le_word (le_bytes 4 (c :: 32 word)) = c"
  by (simp add: le_word_le_bytes take_bit_word_eq_self)

lemma le_word_le_bytes_64: "le_word (le_bytes 8 (c :: 64 word)) = c"
  by (simp add: le_word_le_bytes take_bit_word_eq_self)

lemma length_le_bytes: "length (le_bytes n w) = n"
  by (simp add: le_bytes_def)

lemma length_store: "off + length bs \<le> length obj \<Longrightarrow> length (store obj off bs) = length obj"
  by (simp add: store_def)

lemma take_store_below: "n \<le> off \<Longrightarrow> off \<le> length obj \<Longrightarrow> take n (store obj off bs) = take n obj"
  by (simp add: store_def min_def)

lemma read_store: "off \<le> length obj \<Longrightarrow> take (length bs) (drop off (store obj off bs)) = bs"
  by (simp add: store_def)

lemma nth_store:
  "off + length bs \<le> length obj \<Longrightarrow> i < length obj \<Longrightarrow>
     store obj off bs ! i = (if off \<le> i \<and> i < off + length bs then bs ! (i - off) else obj ! i)"
  by (auto simp add: store_def nth_append min_def)

lemma length_MakePipedData: "length MakePipedData = sizeof_PipedData"
  by (simp add: MakePipedData_def)

lemma length_set_status_code:
  "length f = sizeof_PipedData \<Longrightarrow> length (set_status_code f c) = sizeof_PipedData"
  by (simp add: set_status_code_def length_store length_le_bytes sizeof_PipedData_def
        offsetof_status_code_def)

lemma length_set_code_address:
  "length f = sizeof_PipedData \<Longrightarrow> length (set_code_address f a) = sizeof_PipedData"
  by (simp add: set_code_address_def length_store length_le_bytes sizeof_PipedData_def
        offsetof_code_address_def)

lemma status_code_set_status_code:
  "length f = sizeof_PipedData \<Longrightarrow> status_code (set_status_code f c) = c"
proof -
  assume "length f = sizeof_PipedData"
  then have "take (length (le_bytes 4 c)) (drop 0 (store f 0 (le_bytes 4 c))) = le_bytes 4 c"
    by (intro read_store) simp
  then show ?thesis
    by (simp add: status_code_def set_status_code_def offsetof_status_code_def length_le_bytes
          le_word_le_bytes_32)
qed

lemma status_code_set_code_address:
  "length f = sizeof_PipedData \<Longrightarrow> status_code (set_code_address f a) = status_code f"
  by (simp add: status_code_def set_code_address_def offsetof_status_code_def
        offsetof_code_address_def take_store_below sizeof_PipedData_def)

lemma code_address_set_code_address:
  "length f = sizeof_PipedData \<Longrightarrow> code_address (set_code_address f a) = a"
proof -
  assume "length f = sizeof_PipedData"
  then have "take (length (le_bytes 8 a)) (drop 1032 (store f 1032 (le_bytes 8 a))) = le_bytes 8 a"
    by (intro read_store) (simp add: sizeof_PipedData_def)
  then show ?thesis
    by (simp add: code_address_def set_code_address_def offsetof_code_address_def length_le_bytes
          le_word_le_bytes_64)
qed

lemma ok_frame_fields:
  "length (ok_frame a) = sizeof_PipedData" "status_code (ok_frame a) = kOk"
  "code_address (ok_frame a) = a"
  by (simp_all add: ok_frame_def length_set_code_address length_set_status_code
        length_MakePipedData status_code_set_code_address status_code_set_status_code
        code_address_set_code_address OkStatus_def)

lemma unat_of_char: "unat (of_char c :: byte) = of_char c"
proof -
  have "(of_char c :: byte) = of_nat (of_char c)"
    by (simp add: of_nat_of_char)
  then have "unat (of_char c :: byte) = of_char c mod 256"
    by (simp add: unat_of_nat)
  then show ?thesis
    using nat_of_char_less_256 [of c] by simp
qed

lemma char_of_unat_of_char: "char_of (unat (of_char c :: byte)) = c"
  by (simp add: unat_of_char)

lemma of_char_eq_0: "(of_char c :: byte) = 0 \<longleftrightarrow> c = CHR 0x00"
proof
  assume "(of_char c :: byte) = 0"
  then have "unat (of_char c :: byte) = 0" by simp
  then have "(of_char c :: nat) = 0" by (simp add: unat_of_char)
  then have "(of_char c :: nat) = of_char (CHR 0x00)" by simp
  then show "c = CHR 0x00" by (simp only: of_char_eq_iff)
next
  assume "c = CHR 0x00"
  then show "(of_char c :: byte) = 0" by simp
qed

lemma piped_data_parts:
  assumes n: "n = min (length (message status)) (sizeof_status_message - 1)"
  shows "AbortChildProcess_piped_data status =
           le_bytes 4 (code status) @ map of_char (take n (message status))
             @ replicate (sizeof_PipedData - 4 - n) 0"
proof -
  have n_le: "n \<le> 1023" using n by (simp add: sizeof_status_message_def)
  have len: "length (map of_char (take n (message status)) :: byte list) = n"
    using n by simp
  have "store (store (replicate 1040 0) 0 (le_bytes 4 (code status))) 4
          (map of_char (take n (message status)))
        = le_bytes 4 (code status) @ map of_char (take n (message status))
             @ replicate (1040 - 4 - n) (0 :: byte)"
    using n_le len by (simp add: store_def length_le_bytes)
  then show ?thesis
    using n
    by (simp add: AbortChildProcess_piped_data_def Let_def MakePipedData_def
          set_status_code_def repmovsb_def sizeof_PipedData_def offsetof_status_code_def
          offsetof_status_message_def take_map)
qed

lemma piped_data_frame:
  "length (AbortChildProcess_piped_data status) = sizeof_PipedData
   \<and> status_code (AbortChildProcess_piped_data status) = code status
   \<and> take (min (length (message status)) (sizeof_status_message - 1))
        (drop offsetof_status_message (AbortChildProcess_piped_data status))
      = map of_char (take (sizeof_status_message - 1) (message status))
   \<and> (\<forall>i. offsetof_status_message
            + min (length (message status)) (sizeof_status_message - 1) \<le> i
          \<and> i < sizeof_PipedData \<longrightarrow> AbortChildProcess_piped_data status ! i = 0)
   \<and> AbortChildProcess_piped_data status
        ! (offsetof_status_message + sizeof_status_message - 1) = 0
   \<and> (CHR 0x00 \<notin> set (take (sizeof_status_message - 1) (message status)) \<longrightarrow>
        status_message (AbortChildProcess_piped_data status)
          = Some (take (sizeof_status_message - 1) (message status)))"
proof -
  define n where "n = min (length (message status)) (sizeof_status_message - 1)"
  define m :: "byte list" where "m = map of_char (take n (message status))"
  have n_le: "n \<le> 1023" by (simp add: n_def sizeof_status_message_def)
  have len_m: "length m = n" by (simp add: m_def n_def)
  have tk: "take n (message status) = take (sizeof_status_message - 1) (message status)"
    by (simp add: n_def min_def)
  have f: "AbortChildProcess_piped_data status
            = le_bytes 4 (code status) @ m @ replicate (sizeof_PipedData - 4 - n) 0"
    using piped_data_parts [OF n_def] by (simp add: m_def)
  have 1: "length (AbortChildProcess_piped_data status) = sizeof_PipedData"
    using n_le by (simp add: f length_le_bytes len_m sizeof_PipedData_def)
  have 2: "status_code (AbortChildProcess_piped_data status) = code status"
    by (simp add: f status_code_def offsetof_status_code_def length_le_bytes le_word_le_bytes_32)
  have 3: "take n (drop offsetof_status_message (AbortChildProcess_piped_data status)) = m"
    by (simp add: f offsetof_status_message_def length_le_bytes len_m)
  have 4: "AbortChildProcess_piped_data status ! i = 0"
    if "offsetof_status_message + n \<le> i \<and> i < sizeof_PipedData" for i
    using that n_le
    by (auto simp add: f nth_append length_le_bytes len_m offsetof_status_message_def
          sizeof_PipedData_def)
  have 5: "AbortChildProcess_piped_data status
        ! (offsetof_status_message + sizeof_status_message - 1) = 0"
    using n_le
    by (intro 4) (simp add: offsetof_status_message_def sizeof_status_message_def
          sizeof_PipedData_def)
  have 6: "status_message (AbortChildProcess_piped_data status)
          = Some (take (sizeof_status_message - 1) (message status))"
    if nonul: "CHR 0x00 \<notin> set (take (sizeof_status_message - 1) (message status))"
  proof -
    define k where "k = sizeof_PipedData - 4 - n - 1"
    have sk: "sizeof_PipedData - 4 - n = Suc k"
      using n_le by (simp add: k_def sizeof_PipedData_def)
    have "drop offsetof_status_message (AbortChildProcess_piped_data status)
        = m @ replicate (sizeof_PipedData - 4 - n) 0"
      by (simp add: f offsetof_status_message_def length_le_bytes)
    then have rest: "drop offsetof_status_message (AbortChildProcess_piped_data status)
        = m @ replicate (Suc k) 0"
      unfolding sk .
    have nz: "\<forall>b\<in>set m. b \<noteq> 0"
      using nonul by (auto simp add: m_def tk of_char_eq_0)
    have tw: "takeWhile (\<lambda>b. b \<noteq> 0) (m @ replicate (Suc k) 0) = m"
      using nz by (simp add: takeWhile_append2)
    have chars: "map (\<lambda>b. char_of (unat b)) m = take (sizeof_status_message - 1) (message status)"
      by (simp add: m_def tk comp_def char_of_unat_of_char)
    have "status_message (AbortChildProcess_piped_data status)
        = Some (map (\<lambda>b. char_of (unat b)) (takeWhile (\<lambda>b. b \<noteq> 0) (m @ replicate (Suc k) 0)))"
      unfolding status_message_def Let_def rest by simp
    then show ?thesis
      unfolding tw chars .
  qed
  from 1 2 3 4 5 6 show ?thesis
    unfolding n_def [symmetric] m_def tk by blast
qed

section \<open>Calls issued by the parent\<close>

lemma errno_issue [simp]: "errno (issue e p) = errno p"
  by (simp add: issue_def)

lemma calls_issue [simp]: "calls (issue e p) = calls p @ [e]"
  by (simp add: issue_def)

lemma read_retry_calls:
  "read_retry fd off n rs p = Returns (br, err, got, rs', p') \<Longrightarrow>
     \<exists>k. calls p' = calls p @ replicate (Suc k) (Call_read fd off n)"
proof (induction rs arbitrary: p)
  case Nil
  then show ?case by simp
next
  case (Cons r rs)
  let ?p2 = "case r of Done bs \<Rightarrow> issue (Call_read fd off n) p
             | Fails e \<Rightarrow> (issue (Call_read fd off n) p)\<lparr>errno := e\<rparr>"
  have c2: "calls ?p2 = calls p @ [Call_read fd off n]"
    by (cases r) (simp_all add: issue_def)
  show ?case
  proof (cases "IsRetryable (errno ?p2)")
    case True
    with Cons.prems have "read_retry fd off n rs ?p2 = Returns (br, err, got, rs', p')"
      by (simp add: Let_def)
    from Cons.IH [OF this] obtain k where
      "calls p' = calls ?p2 @ replicate (Suc k) (Call_read fd off n)" by blast
    with c2 have "calls p' = calls p @ replicate (Suc (Suc k)) (Call_read fd off n)"
      by simp
    then show ?thesis by blast
  next
    case False
    with Cons.prems have "p' = ?p2" by (simp add: Let_def)
    with c2 have "calls p' = calls p @ replicate (Suc 0) (Call_read fd off n)" by simp
    then show ?thesis by blast
  qed
qed

lemma read_retry_got:
  "read_retry fd off n rs p = Returns (br, err, got, rs', p') \<Longrightarrow>
     br = - 1 \<or> (br = int (length got) \<and> length got \<le> n)"
proof (induction rs arbitrary: p)
  case Nil
  then show ?case by simp
next
  case (Cons r rs)
  let ?p2 = "case r of Done bs \<Rightarrow> issue (Call_read fd off n) p
             | Fails e \<Rightarrow> (issue (Call_read fd off n) p)\<lparr>errno := e\<rparr>"
  show ?case
  proof (cases "IsRetryable (errno ?p2)")
    case True
    with Cons.prems have "read_retry fd off n rs ?p2 = Returns (br, err, got, rs', p')"
      by (simp add: Let_def)
    from Cons.IH [OF this] show ?thesis .
  next
    case False
    with Cons.prems show ?thesis by (cases r) (auto simp add: Let_def)
  qed
qed

lemma ReadAll_finish_result:
  assumes "ReadAll_finish lib fd off buf rs p = Returns (r, rs', p')"
  shows "(\<exists>st. r = Inl st \<and> \<not> ok st \<and> p' = p \<and> off \<noteq> sizeof_PipedData)
       \<or> (r = Inr buf \<and> p' = issue (Call_close fd) p \<and> off = sizeof_PipedData)"
  using assms by (auto simp add: ReadAll_finish_def StatusOr_of_Status_not_ok split: if_splits)

lemma ReadAll_loop_result:
  "ReadAll_loop lib fd off buf rs p = Returns (r, rs', p') \<Longrightarrow> length buf = off \<Longrightarrow>
     \<exists>zs. calls p' = calls p @ zs \<and> (\<forall>e\<in>set zs. pipe_call fd e)
       \<and> (case r of
             Inl st \<Rightarrow> \<not> ok st \<and> (\<forall>e\<in>set zs. read_call fd e)
           | Inr d \<Rightarrow> length d = sizeof_PipedData \<and> zs \<noteq> [] \<and> last zs = Call_close fd
                      \<and> (\<forall>e\<in>set (butlast zs). read_call fd e))"
proof (induction lib fd off buf rs p rule: ReadAll_loop.induct)
  case (1 lib fd off buf rs p)
  show ?case
  proof (cases "off < sizeof_PipedData")
    case False
    with "1.prems" have fin: "ReadAll_finish lib fd off buf rs p = Returns (r, rs', p')"
      by (simp add: ReadAll_loop.simps)
    from ReadAll_finish_result [OF fin] "1.prems"(2) show ?thesis
      by (auto simp add: issue_def pipe_call_def read_call_def)
  next
    case True
    show ?thesis
    proof (cases "read_retry fd off (sizeof_PipedData - off) rs p")
      case (No_return s q)
      with True "1.prems" show ?thesis by (simp add: ReadAll_loop.simps)
    next
      case (Returns x)
      obtain br err got rs1 p1 where x: "x = (br, err, got, rs1, p1)"
        by (cases x) auto
      from Returns x have rr:
        "read_retry fd off (sizeof_PipedData - off) rs p = Returns (br, err, got, rs1, p1)"
        by simp
      from read_retry_calls [OF rr] obtain k where
        c1: "calls p1 = calls p @ replicate (Suc k) (Call_read fd off (sizeof_PipedData - off))"
        by blast
      have reads: "\<forall>e\<in>set (replicate (Suc k) (Call_read fd off (sizeof_PipedData - off))).
          read_call fd e \<and> pipe_call fd e"
        by (simp add: read_call_def pipe_call_def)
      show ?thesis
      proof (cases "br < 0")
        case neg: True
        with True rr "1.prems" have "r = Inl (StatusOr_of_Status
            (ErrnoToStatus lib err ''Failed to read from pipe''))" and "p' = p1"
          by (simp_all add: ReadAll_loop.simps)
        with c1 reads show ?thesis
          by (auto simp add: StatusOr_of_Status_not_ok simp del: replicate_Suc)
      next
        case nonneg: False
        show ?thesis
        proof (cases "br = 0")
          case True
          with \<open>off < sizeof_PipedData\<close> nonneg rr "1.prems"
          have fin: "ReadAll_finish lib fd off buf rs1 p1 = Returns (r, rs', p')"
            by (simp add: ReadAll_loop.simps)
          from ReadAll_finish_result [OF fin] \<open>off < sizeof_PipedData\<close>
          obtain st where "r = Inl st" "\<not> ok st" "p' = p1" by auto
          with c1 reads show ?thesis by (auto simp del: replicate_Suc)
        next
          case False
          with \<open>off < sizeof_PipedData\<close> nonneg rr "1.prems"
          have rec: "ReadAll_loop lib fd (off + nat br) (buf @ got) rs1 p1 = Returns (r, rs', p')"
            by (simp add: ReadAll_loop.simps)
          from read_retry_got [OF rr] nonneg have "br = int (length got)" by auto
          with "1.prems"(2) have len: "length (buf @ got) = off + nat br" by simp
          from "1.IH" [OF \<open>off < sizeof_PipedData\<close> Returns x [symmetric] refl refl refl nonneg False rec len]
          obtain zs where zs: "calls p' = calls p1 @ zs" "\<forall>e\<in>set zs. pipe_call fd e"
            "case r of
               Inl st \<Rightarrow> \<not> ok st \<and> (\<forall>e\<in>set zs. read_call fd e)
             | Inr d \<Rightarrow> length d = sizeof_PipedData \<and> zs \<noteq> [] \<and> last zs = Call_close fd
                      \<and> (\<forall>e\<in>set (butlast zs). read_call fd e)"
            by blast
          let ?rs = "replicate (Suc k) (Call_read fd off (sizeof_PipedData - off))"
          have "calls p' = calls p @ (?rs @ zs)" using zs(1) c1 by simp
          moreover have "\<forall>e\<in>set (?rs @ zs). pipe_call fd e" using zs(2) reads by auto
          moreover have "case r of
               Inl st \<Rightarrow> \<not> ok st \<and> (\<forall>e\<in>set (?rs @ zs). read_call fd e)
             | Inr d \<Rightarrow> length d = sizeof_PipedData \<and> ?rs @ zs \<noteq> [] \<and> last (?rs @ zs) = Call_close fd
                      \<and> (\<forall>e\<in>set (butlast (?rs @ zs)). read_call fd e)"
            using zs(3) reads by (cases r) (auto simp add: butlast_append simp del: replicate_Suc)
          ultimately show ?thesis by blast
        qed
      qed
    qed
  qed
qed

lemma ReadAll_result:
  assumes "ReadAll lib fd rs p = Returns (r, rs', p')"
  shows "\<exists>zs. calls p' = calls p @ zs \<and> (\<forall>e\<in>set zs. pipe_call fd e)
       \<and> (case r of
             Inl st \<Rightarrow> \<not> ok st \<and> (\<forall>e\<in>set zs. read_call fd e)
           | Inr d \<Rightarrow> length d = sizeof_PipedData \<and> zs \<noteq> [] \<and> last zs = Call_close fd
                      \<and> (\<forall>e\<in>set (butlast zs). read_call fd e))"
  using ReadAll_loop_result [of lib fd 0 "[]" rs p r rs' p'] assms
  by (simp add: ReadAll_def)

lemma ReadAll_whole_frame:
  assumes "length d = sizeof_PipedData" and "\<not> IsRetryable (errno p)"
  shows "ReadAll lib fd (Done d # rs) p =
           Returns (Inr d, rs, issue (Call_close fd) (issue (Call_read fd 0 sizeof_PipedData) p))"
proof -
  have step: "read_retry fd 0 sizeof_PipedData (Done d # rs) p =
      Returns (int sizeof_PipedData, errno p, d, rs, issue (Call_read fd 0 sizeof_PipedData) p)"
    using assms by (simp add: Let_def)
  have pos: "0 < sizeof_PipedData" by (simp add: sizeof_PipedData_def)
  have "ReadAll_loop lib fd 0 [] (Done d # rs) p =
      ReadAll_loop lib fd sizeof_PipedData d rs (issue (Call_read fd 0 sizeof_PipedData) p)"
    by (subst ReadAll_loop.simps) (use assms in \<open>simp add: sizeof_PipedData_def Let_def\<close>)
  also have "\<dots> = Returns (Inr d, rs,
      issue (Call_close fd) (issue (Call_read fd 0 sizeof_PipedData) p))"
    by (subst ReadAll_loop.simps) (simp add: ReadAll_finish_def)
  finally show ?thesis by (simp add: ReadAll_def)
qed

lemma read_retry_trace:
  "read_retry fd off n rs p = Returns (br, err, got, rs', q) \<or> read_retry fd off n rs p = No_return s q
     \<Longrightarrow> \<exists>k. calls q = calls p @ replicate (Suc k) (Call_read fd off n)"
proof (induction rs arbitrary: p)
  case Nil
  then have "calls q = calls p @ replicate (Suc 0) (Call_read fd off n)" by auto
  then show ?case by blast
next
  case (Cons r rs)
  let ?p2 = "case r of Done bs \<Rightarrow> issue (Call_read fd off n) p
             | Fails e \<Rightarrow> (issue (Call_read fd off n) p)\<lparr>errno := e\<rparr>"
  have c2: "calls ?p2 = calls p @ [Call_read fd off n]"
    by (cases r) (simp_all add: issue_def)
  show ?case
  proof (cases "IsRetryable (errno ?p2)")
    case True
    with Cons.prems have "read_retry fd off n rs ?p2 = Returns (br, err, got, rs', q)
        \<or> read_retry fd off n rs ?p2 = No_return s q"
      by (simp add: Let_def)
    from Cons.IH [OF this] obtain k where
      "calls q = calls ?p2 @ replicate (Suc k) (Call_read fd off n)" by blast
    with c2 have "calls q = calls p @ replicate (Suc (Suc k)) (Call_read fd off n)"
      by simp
    then show ?thesis by blast
  next
    case False
    with Cons.prems have "q = ?p2" by (simp add: Let_def)
    with c2 have "calls q = calls p @ replicate (Suc 0) (Call_read fd off n)" by simp
    then show ?thesis by blast
  qed
qed

lemma ReadAll_loop_trace:
  "ReadAll_loop lib fd off buf rs p = Returns (r, rs', q) \<or> ReadAll_loop lib fd off buf rs p = No_return s q
     \<Longrightarrow> \<exists>zs. calls q = calls p @ zs
           \<and> (off < sizeof_PipedData \<longrightarrow>
                (\<exists>ws. zs = Call_read fd off (sizeof_PipedData - off) # ws))"
proof (induction lib fd off buf rs p rule: ReadAll_loop.induct)
  case (1 lib fd off buf rs p)
  show ?case
  proof (cases "off < sizeof_PipedData")
    case False
    with "1.prems" have "ReadAll_finish lib fd off buf rs p = Returns (r, rs', q)"
      by (simp add: ReadAll_loop.simps ReadAll_finish_def split: if_splits)
    from ReadAll_finish_result [OF this] False show ?thesis
      by (auto simp add: issue_def)
  next
    case True
    let ?e = "Call_read fd off (sizeof_PipedData - off)"
    show ?thesis
    proof (cases "read_retry fd off (sizeof_PipedData - off) rs p")
      case (No_return s1 q1)
      with True "1.prems" have "q = q1" by (simp add: ReadAll_loop.simps)
      with No_return read_retry_trace [of fd off "sizeof_PipedData - off" rs p _ _ _ _ q1 s1]
      obtain k where "calls q = calls p @ replicate (Suc k) ?e" by blast
      with True show ?thesis by simp
    next
      case (Returns x)
      obtain br err got rs1 p1 where x: "x = (br, err, got, rs1, p1)"
        by (cases x) auto
      from Returns x have rr:
        "read_retry fd off (sizeof_PipedData - off) rs p = Returns (br, err, got, rs1, p1)"
        by simp
      from read_retry_calls [OF rr] obtain k where
        c1: "calls p1 = calls p @ replicate (Suc k) ?e"
        by blast
      have tail: "\<exists>zs. calls q = calls p1 @ zs"
      proof (cases "br < 0")
        case neg: True
        with True rr "1.prems" have "q = p1" by (simp add: ReadAll_loop.simps)
        then show ?thesis by simp
      next
        case nonneg: False
        show ?thesis
        proof (cases "br = 0")
          case zero: True
          with True nonneg rr "1.prems"
          have "ReadAll_finish lib fd off buf rs1 p1 = Returns (r, rs', q)"
            by (simp add: ReadAll_loop.simps ReadAll_finish_def split: if_splits)
          from ReadAll_finish_result [OF this] show ?thesis
            by (auto simp add: issue_def)
        next
          case False
          with True nonneg rr "1.prems"
          have rec: "ReadAll_loop lib fd (off + nat br) (buf @ got) rs1 p1 = Returns (r, rs', q)
              \<or> ReadAll_loop lib fd (off + nat br) (buf @ got) rs1 p1 = No_return s q"
            by (simp add: ReadAll_loop.simps)
          from "1.IH" [OF True Returns x [symmetric] refl refl refl nonneg False rec]
          show ?thesis by blast
        qed
      qed
      then obtain zs where "calls q = calls p1 @ zs" by blast
      with c1 have "calls q = calls p @ ?e # (replicate k ?e @ zs)" by simp
      then show ?thesis by blast
    qed
  qed
qed

lemma ReadAll_trace:
  assumes "ReadAll lib fd rs p = Returns (r, rs', q) \<or> ReadAll lib fd rs p = No_return s q"
  shows "\<exists>ws. calls q = calls p @ Call_read fd 0 sizeof_PipedData # ws"
  using ReadAll_loop_trace [of lib fd 0 "[]" rs p r rs' q s] assms
  by (auto simp add: ReadAll_def sizeof_PipedData_def)

lemma read_retry_done:
  "\<not> IsRetryable (errno p) \<Longrightarrow>
     read_retry fd off n (Done bs # rs) p =
       Returns (int (length (take n bs)), errno p, take n bs, rs, issue (Call_read fd off n) p)"
  by (simp add: Let_def)

lemma ReadAll_loop_chunks:
  assumes "\<not> IsRetryable (errno p)" and "\<forall>c\<in>set chunks. c \<noteq> []"
    and "off + length (concat chunks) = sizeof_PipedData"
  shows "ReadAll_loop lib fd off buf (map Done chunks @ rs) p =
           Returns (Inr (buf @ concat chunks), rs,
             p\<lparr>calls := calls p @ read_calls fd off chunks @ [Call_close fd]\<rparr>)"
  using assms
proof (induction chunks arbitrary: off buf p)
  case Nil
  then show ?case
    by (subst ReadAll_loop.simps) (simp add: ReadAll_finish_def issue_def)
next
  case (Cons c cs)
  from Cons.prems have c: "c \<noteq> []" and fit: "length c \<le> sizeof_PipedData - off"
    and lt: "off < sizeof_PipedData" by (auto simp add: neq_Nil_conv)
  let ?p1 = "issue (Call_read fd off (sizeof_PipedData - off)) p"
  have step: "ReadAll_loop lib fd off buf (map Done (c # cs) @ rs) p =
      ReadAll_loop lib fd (off + length c) (buf @ c) (map Done cs @ rs) ?p1"
    using Cons.prems(1) c fit lt
    by (subst ReadAll_loop.simps) (simp add: read_retry_done del: read_retry.simps)
  have "ReadAll_loop lib fd (off + length c) (buf @ c) (map Done cs @ rs) ?p1 =
      Returns (Inr ((buf @ c) @ concat cs), rs,
        ?p1\<lparr>calls := calls ?p1 @ read_calls fd (off + length c) cs @ [Call_close fd]\<rparr>)"
    using Cons.prems by (intro Cons.IH) simp_all
  with step show ?case by (simp add: issue_def)
qed

lemma ReadAll_chunks:
  assumes "\<not> IsRetryable (errno p)" and "\<forall>c\<in>set chunks. c \<noteq> []"
    and "length (concat chunks) = sizeof_PipedData"
  shows "ReadAll lib fd (map Done chunks @ rs) p =
           Returns (Inr (concat chunks), rs,
             p\<lparr>calls := calls p @ read_calls fd 0 chunks @ [Call_close fd]\<rparr>)"
  using ReadAll_loop_chunks [of p chunks 0 lib fd "[]" rs] assms
  by (simp add: ReadAll_def)

lemma ParentProcessInner_result:
  assumes "ParentProcessInner lib t pid aa p = Returns (st, aa', p')"
  shows "errno p' = errno p"
    and "\<exists>xs. calls p' = calls p @ xs \<and> (\<forall>e\<in>set xs. trace_call pid e)"
    and "aa' = aa \<or> (ok st \<and> (\<exists>a. AlignDown (si_addr t) (block_size aa) = Some a
           \<and> a \<notin> set (accessed_blocks aa)
           \<and> aa' = aa\<lparr>accessed_blocks := accessed_blocks aa @ [a]\<rparr>))"
proof -
  show "errno p' = errno p"
    using assms
    by (auto simp add: ParentProcessInner_def Let_def issue_def split: if_splits option.splits)
  show "\<exists>xs. calls p' = calls p @ xs \<and> (\<forall>e\<in>set xs. trace_call pid e)"
    using assms
    by (auto simp add: ParentProcessInner_def Let_def issue_def trace_call_def
          split: if_splits option.splits)
  show "aa' = aa \<or> (ok st \<and> (\<exists>a. AlignDown (si_addr t) (block_size aa) = Some a
           \<and> a \<notin> set (accessed_blocks aa)
           \<and> aa' = aa\<lparr>accessed_blocks := accessed_blocks aa @ [a]\<rparr>))"
    using assms
    by (auto simp add: ParentProcessInner_def Let_def ok_OkStatus split: if_splits option.splits)
qed

lemma ParentProcessInner_no_return:
  assumes "ParentProcessInner lib t pid aa p = No_return s q"
  shows "\<exists>xs. calls q = calls p @ xs \<and> (\<forall>e\<in>set xs. trace_call pid e)"
  using assms
  by (auto simp add: ParentProcessInner_def Let_def issue_def trace_call_def
        split: if_splits option.splits)

lemma ParentProcess_result:
  assumes "ParentProcess lib t pid fd aa p = Returns (st, aa', p')"
  shows "\<exists>st1 aa1 p1. ParentProcessInner lib t pid aa p = Returns (st1, aa1, p1) \<and>
      ((kill_ret t \<noteq> 0 \<and> \<not> ok st \<and> aa' = aa1 \<and> p' = issue (Call_kill pid SIGKILL) p1)
       \<or> (kill_ret t = 0 \<and> \<not> ok st1 \<and> st = st1 \<and> aa' = aa1 \<and> p' = reaped pid p1)
       \<or> (kill_ret t = 0 \<and> ok st1 \<and>
            (\<exists>e rs. ReadAll lib fd (reads t) (reaped pid p1) = Returns (Inl e, rs, p')
                \<and> st = e \<and> \<not> ok st \<and> aa' = aa1))
       \<or> (kill_ret t = 0 \<and> ok st1 \<and>
            (\<exists>d rs. ReadAll lib fd (reads t) (reaped pid p1) = Returns (Inr d, rs, p')
                \<and> status_code d \<noteq> kOk \<and> \<not> ok st \<and> aa' = aa1))
       \<or> (kill_ret t = 0 \<and> ok st1 \<and>
            (\<exists>d rs. ReadAll lib fd (reads t) (reaped pid p1) = Returns (Inr d, rs, p')
                \<and> status_code d = kOk \<and> st = OkStatus
                \<and> aa' = aa1\<lparr>code_location := code_address d\<rparr>)))"
proof (cases "ParentProcessInner lib t pid aa p")
  case (No_return s q)
  with assms show ?thesis by (simp add: ParentProcess_def)
next
  case (Returns x)
  obtain st1 aa1 p1 where x: "x = (st1, aa1, p1)" by (cases x) auto
  note inner = Returns [unfolded x]
  show ?thesis
  proof (cases "kill_ret t = 0")
    case False
    with assms inner show ?thesis
      by (auto simp add: ParentProcess_def Let_def InternalError_not_ok)
  next
    case kill: True
    show ?thesis
    proof (cases "ok st1")
      case False
      with assms inner kill show ?thesis
        by (auto simp add: ParentProcess_def Let_def reaped_def)
    next
      case True
      show ?thesis
      proof (cases "ReadAll lib fd (reads t) (reaped pid p1)")
        case (No_return s q)
        with assms inner kill True show ?thesis
          by (simp add: ParentProcess_def Let_def reaped_def)
      next
        case (Returns y)
        obtain r rs p4 where y: "y = (r, rs, p4)" by (cases y) auto
        note rd = Returns [unfolded y]
        show ?thesis
        proof (cases r)
          case (Inl e)
          from rd Inl have "\<not> ok e"
            using ReadAll_loop_result [of lib fd 0 "[]" "reads t" "reaped pid p1" r rs p4]
            by (auto simp add: ReadAll_def)
          with assms inner kill True rd Inl show ?thesis
            by (auto simp add: ParentProcess_def Let_def reaped_def)
        next
          case (Inr d)
          with assms inner kill True rd show ?thesis
            by (auto simp add: ParentProcess_def Let_def reaped_def absl_Status_not_ok
                  split: if_splits option.splits)
        qed
      qed
    qed
  qed
qed

lemma ParentProcess_shape:
  assumes "ParentProcess lib t pid fd aa p = Returns (st, aa', p')
      \<or> ParentProcess lib t pid fd aa p = No_return s p'"
  shows "\<exists>xs zs. calls p' = calls p @ xs @ zs \<and> (\<forall>e\<in>set xs. trace_call pid e)
      \<and> (zs = [] \<or> zs = [Call_kill pid SIGKILL]
          \<or> (\<exists>ws. zs = Call_kill pid SIGKILL # Call_waitpid pid # ws))"
proof (cases "ParentProcessInner lib t pid aa p")
  case (No_return s1 q)
  with assms have "p' = q" by (auto simp add: ParentProcess_def)
  with ParentProcessInner_no_return [OF No_return] obtain xs where
    "calls p' = calls p @ xs @ []" "\<forall>e\<in>set xs. trace_call pid e" by auto
  then show ?thesis by blast
next
  case (Returns x)
  obtain st1 aa1 p1 where x: "x = (st1, aa1, p1)" by (cases x) auto
  note inner = Returns [unfolded x]
  from ParentProcessInner_result(2) [OF inner] obtain xs where
    xs: "calls p1 = calls p @ xs" "\<forall>e\<in>set xs. trace_call pid e"
    by blast
  have "\<exists>zs. calls p' = calls p1 @ zs \<and> (zs = [Call_kill pid SIGKILL]
          \<or> (\<exists>ws. zs = Call_kill pid SIGKILL # Call_waitpid pid # ws))"
  proof (cases "kill_ret t = 0")
    case False
    with assms inner have "p' = issue (Call_kill pid SIGKILL) p1"
      by (auto simp add: ParentProcess_def Let_def)
    then show ?thesis by simp
  next
    case kill: True
    show ?thesis
    proof (cases "ok st1")
      case False
      with assms inner kill have "p' = reaped pid p1"
        by (auto simp add: ParentProcess_def Let_def reaped_def)
      then show ?thesis by (simp add: reaped_def)
    next
      case True
      have "\<exists>r rs s'. ReadAll lib fd (reads t) (reaped pid p1) = Returns (r, rs, p')
          \<or> ReadAll lib fd (reads t) (reaped pid p1) = No_return s' p'"
        using assms inner kill True
        by (cases "ReadAll lib fd (reads t) (reaped pid p1)")
           (auto simp add: ParentProcess_def Let_def reaped_def
              split: sum.splits if_splits option.splits)
      then obtain r rs s' where "ReadAll lib fd (reads t) (reaped pid p1) = Returns (r, rs, p')
          \<or> ReadAll lib fd (reads t) (reaped pid p1) = No_return s' p'"
        by blast
      from ReadAll_trace [OF this] obtain ws where
        "calls p' = calls (reaped pid p1) @ Call_read fd 0 sizeof_PipedData # ws" by blast
      then show ?thesis by (simp add: reaped_def)
    qed
  qed
  with xs show ?thesis by auto
qed

lemma trial_frame:
  assumes "ForkAndTestAddresses lib t basic_block aa p = Returns (st, aa', p')"
  shows "block_size aa' = block_size aa \<and> initial_regs aa' = initial_regs aa
       \<and> (accessed_blocks aa' = accessed_blocks aa
           \<or> (\<exists>a. a \<notin> set (accessed_blocks aa) \<and> accessed_blocks aa' = accessed_blocks aa @ [a]))"
proof -
  have parent: "block_size b' = block_size b \<and> initial_regs b' = initial_regs b
       \<and> (accessed_blocks b' = accessed_blocks b
           \<or> (\<exists>a. a \<notin> set (accessed_blocks b) \<and> accessed_blocks b' = accessed_blocks b @ [a]))"
    if "ParentProcess lib t pid fd b q = Returns (st, b', q')" for pid fd b q b' q'
  proof -
    from ParentProcess_result [OF that] obtain st1 b1 q1 where
      inner: "ParentProcessInner lib t pid b q = Returns (st1, b1, q1)"
      and "b' = b1 \<or> (\<exists>d. b' = b1\<lparr>code_location := code_address d\<rparr>)"
      by blast
    with ParentProcessInner_result(3) [OF inner] show ?thesis by auto
  qed
  show ?thesis
    using assms parent
    by (auto simp add: ForkAndTestAddresses_def Let_def split: sysret.splits prod.splits if_splits)
qed

lemma trial_segv_ok:
  assumes "length d = sizeof_PipedData" and "status_code d = kOk"
    and "\<not> IsRetryable (errno p)" and "AlignDown addr (block_size aa) = Some a"
  shows "ForkAndTestAddresses lib (stop_trial SIGSEGV addr (Done d # rs)) bb aa p =
           Returns (OkStatus,
             aa\<lparr>accessed_blocks := (if a \<in> set (accessed_blocks aa) then accessed_blocks aa
                                     else accessed_blocks aa @ [a]),
                code_location := code_address d\<rparr>,
             p\<lparr>calls := calls p @ trial_calls @ [Call_ptrace PTRACE_GETSIGINFO 1000,
                  Call_kill 1000 SIGKILL, Call_waitpid 1000,
                  Call_read 3 0 sizeof_PipedData, Call_close 3]\<rparr>)"
proof -
  let ?t = "stop_trial SIGSEGV addr (Done d # rs)"
  let ?aa1 = "aa\<lparr>accessed_blocks := (if a \<in> set (accessed_blocks aa) then accessed_blocks aa
                                     else accessed_blocks aa @ [a])\<rparr>"
  let ?p0 = "issue (Call_close 4) (issue Call_fork (issue Call_pipe p))"
  let ?p1 = "issue (Call_ptrace PTRACE_GETSIGINFO 1000) (issue (Call_waitpid 1000)
      (issue (Call_ptrace PTRACE_CONT 1000) (issue (Call_waitpid 1000) ?p0)))"
  have inner: "ParentProcessInner lib ?t 1000 aa ?p0 = Returns (OkStatus, ?aa1, ?p1)"
    using assms(4) by (simp add: ParentProcessInner_def Let_def)
  have rd: "ReadAll lib 3 (Done d # rs) (reaped 1000 ?p1) =
      Returns (Inr d, rs, issue (Call_close 3) (issue (Call_read 3 0 sizeof_PipedData)
        (reaped 1000 ?p1)))"
    using assms(1,3) by (intro ReadAll_whole_frame) (simp_all add: reaped_def)
  have "ParentProcess lib ?t 1000 3 aa ?p0 =
      Returns (OkStatus, ?aa1\<lparr>code_location := code_address d\<rparr>,
        issue (Call_close 3) (issue (Call_read 3 0 sizeof_PipedData) (reaped 1000 ?p1)))"
    using rd assms(2) by (simp add: ParentProcess_def inner Let_def ok_OkStatus reaped_def)
  then show ?thesis
    by (simp add: ForkAndTestAddresses_def Let_def issue_def reaped_def trial_calls_def)
qed

lemma trial_abort_ok:
  assumes "length d = sizeof_PipedData" and "status_code d = kOk"
    and "\<not> IsRetryable (errno p)"
  shows "ForkAndTestAddresses lib (stop_trial SIGABRT addr (Done d # rs)) bb aa p =
           Returns (OkStatus, aa\<lparr>code_location := code_address d\<rparr>,
             p\<lparr>calls := calls p @ trial_calls @ [Call_kill 1000 SIGKILL, Call_waitpid 1000,
                  Call_read 3 0 sizeof_PipedData, Call_close 3]\<rparr>)"
proof -
  let ?t = "stop_trial SIGABRT addr (Done d # rs)"
  let ?p0 = "issue (Call_close 4) (issue Call_fork (issue Call_pipe p))"
  let ?p1 = "issue (Call_waitpid 1000) (issue (Call_ptrace PTRACE_CONT 1000)
      (issue (Call_waitpid 1000) ?p0))"
  have inner: "ParentProcessInner lib ?t 1000 aa ?p0 = Returns (OkStatus, aa, ?p1)"
    by (simp add: ParentProcessInner_def Let_def)
  have rd: "ReadAll lib 3 (Done d # rs) (reaped 1000 ?p1) =
      Returns (Inr d, rs, issue (Call_close 3) (issue (Call_read 3 0 sizeof_PipedData)
        (reaped 1000 ?p1)))"
    using assms(1,3) by (intro ReadAll_whole_frame) (simp_all add: reaped_def)
  have "ParentProcess lib ?t 1000 3 aa ?p0 =
      Returns (OkStatus, aa\<lparr>code_location := code_address d\<rparr>,
        issue (Call_close 3) (issue (Call_read 3 0 sizeof_PipedData) (reaped 1000 ?p1)))"
    using rd assms(2) by (simp add: ParentProcess_def inner Let_def ok_OkStatus reaped_def)
  then show ?thesis
    by (simp add: ForkAndTestAddresses_def Let_def issue_def reaped_def trial_calls_def)
qed

lemma trial_fpe:
  "ForkAndTestAddresses lib (stop_trial SIGFPE addr rs) bb aa p =
     Returns (InvalidArgumentError ''Floating point exception'', aa,
       p\<lparr>calls := calls p @ trial_calls @ [Call_kill 1000 SIGKILL, Call_waitpid 1000]\<rparr>)"
  by (simp add: ForkAndTestAddresses_def ParentProcess_def ParentProcessInner_def Let_def
        InvalidArgumentError_not_ok issue_def trial_calls_def SIGFPE_def SIGSEGV_def SIGABRT_def
        WSTOPSIG_def W_STOPCODE_def WIFSTOPPED_def SIGSTOP_def)

lemma errno_fresh: "errno fresh = 0"
  by (simp add: fresh_def)

section \<open>Classification of the second stop\<close>

text \<open>
  Claim C6. When both waits report a stopped child and the second stop is \<open>SIGSEGV\<close>,
  the parent reads the signal info (the \<open>PTRACE_GETSIGINFO\<close> call is the last one it
  issues), aligns the fault address down to a multiple of \<open>block_size\<close> (the aligned
  address is at most the fault address and less than one block below it), appends it to
  \<open>accessed_blocks\<close> only if it is not already there, and returns ok. When the second
  stop is \<open>SIGABRT\<close> it returns ok, leaves \<open>accessed_addrs\<close> as it was, and does not
  read the signal info. The page size is not zero.
\<close>

theorem ParentProcessInner_segv_abort:
  assumes "WIFSTOPPED (first_status t)" and "WIFSTOPPED (second_status t)"
  shows "(WSTOPSIG (second_status t) = SIGSEGV \<and> block_size aa \<noteq> 0 \<longrightarrow>
           (\<exists>addr p'. AlignDown (si_addr t) (block_size aa) = Some addr
              \<and> unat (block_size aa) dvd unat addr
              \<and> addr \<le> si_addr t \<and> unat (si_addr t) - unat addr < unat (block_size aa)
              \<and> ParentProcessInner lib t pid aa p =
                  Returns (OkStatus,
                    aa\<lparr>accessed_blocks :=
                      (if addr \<in> set (accessed_blocks aa) then accessed_blocks aa
                       else accessed_blocks aa @ [addr])\<rparr>, p')
              \<and> calls p' = calls p @ [Call_waitpid pid, Call_ptrace PTRACE_CONT pid,
                    Call_waitpid pid, Call_ptrace PTRACE_GETSIGINFO pid]))
       \<and> (WSTOPSIG (second_status t) = SIGABRT \<longrightarrow>
           (\<exists>p'. ParentProcessInner lib t pid aa p = Returns (OkStatus, aa, p')
              \<and> calls p' = calls p @ [Call_waitpid pid, Call_ptrace PTRACE_CONT pid,
                    Call_waitpid pid]))"
proof (intro conjI impI)
  assume h: "WSTOPSIG (second_status t) = SIGSEGV \<and> block_size aa \<noteq> 0"
  define addr where "addr = si_addr t - si_addr t mod block_size aa"
  from h have al: "AlignDown (si_addr t) (block_size aa) = Some addr"
    by (simp add: AlignDown_Some addr_def)
  define p' where "p' = issue (Call_ptrace PTRACE_GETSIGINFO pid) (issue (Call_waitpid pid)
      (issue (Call_ptrace PTRACE_CONT pid) (issue (Call_waitpid pid) p)))"
  have run: "ParentProcessInner lib t pid aa p =
      Returns (OkStatus, aa\<lparr>accessed_blocks :=
                      (if addr \<in> set (accessed_blocks aa) then accessed_blocks aa
                       else accessed_blocks aa @ [addr])\<rparr>, p')"
    using assms h al by (simp add: ParentProcessInner_def Let_def p'_def)
  have c: "calls p' = calls p @ [Call_waitpid pid, Call_ptrace PTRACE_CONT pid,
                    Call_waitpid pid, Call_ptrace PTRACE_GETSIGINFO pid]"
    by (simp add: p'_def issue_def)
  from al run c AlignDown_multiple [OF al]
  show "\<exists>addr p'. AlignDown (si_addr t) (block_size aa) = Some addr
              \<and> unat (block_size aa) dvd unat addr
              \<and> addr \<le> si_addr t \<and> unat (si_addr t) - unat addr < unat (block_size aa)
              \<and> ParentProcessInner lib t pid aa p =
                  Returns (OkStatus,
                    aa\<lparr>accessed_blocks :=
                      (if addr \<in> set (accessed_blocks aa) then accessed_blocks aa
                       else accessed_blocks aa @ [addr])\<rparr>, p')
              \<and> calls p' = calls p @ [Call_waitpid pid, Call_ptrace PTRACE_CONT pid,
                    Call_waitpid pid, Call_ptrace PTRACE_GETSIGINFO pid]"
    by blast
next
  assume h: "WSTOPSIG (second_status t) = SIGABRT"
  have "ParentProcessInner lib t pid aa p = Returns (OkStatus, aa,
      issue (Call_waitpid pid) (issue (Call_ptrace PTRACE_CONT pid) (issue (Call_waitpid pid) p)))"
    using assms h by (simp add: ParentProcessInner_def Let_def SIGABRT_def SIGSEGV_def)
  then show "\<exists>p'. ParentProcessInner lib t pid aa p = Returns (OkStatus, aa, p')
              \<and> calls p' = calls p @ [Call_waitpid pid, Call_ptrace PTRACE_CONT pid,
                    Call_waitpid pid]"
    by (simp add: issue_def)
qed

theorem ParentProcessInner_segv_abort_witness:
  "(\<exists>p'. ParentProcessInner plain_lib (stop_trial SIGSEGV 0x50015123 []) 1000
            (initial_accessed_addrs 4096) fresh
          = Returns (OkStatus, (initial_accessed_addrs 4096)\<lparr>accessed_blocks := [0x50015000]\<rparr>, p'))
   \<and> (\<exists>p'. ParentProcessInner plain_lib (stop_trial SIGABRT 0 []) 1000
            (initial_accessed_addrs 4096) fresh
          = Returns (OkStatus, initial_accessed_addrs 4096, p'))"
proof
  have a: "AlignDown 0x50015123 4096 = Some 0x50015000"
    by (simp add: AlignDown_def)
  from ParentProcessInner_segv_abort [of "stop_trial SIGSEGV 0x50015123 []"
      "initial_accessed_addrs 4096" plain_lib 1000 fresh, THEN conjunct1] a
  show "\<exists>p'. ParentProcessInner plain_lib (stop_trial SIGSEGV 0x50015123 []) 1000
            (initial_accessed_addrs 4096) fresh
          = Returns (OkStatus, (initial_accessed_addrs 4096)\<lparr>accessed_blocks := [0x50015000]\<rparr>, p')"
    by (auto simp add: stop_trial_def WSTOPSIG_W_STOPCODE SIGSEGV_def initial_accessed_addrs_def)
  from ParentProcessInner_segv_abort [of "stop_trial SIGABRT 0 []"
      "initial_accessed_addrs 4096" plain_lib 1000 fresh, THEN conjunct2]
  show "\<exists>p'. ParentProcessInner plain_lib (stop_trial SIGABRT 0 []) 1000
            (initial_accessed_addrs 4096) fresh
          = Returns (OkStatus, initial_accessed_addrs 4096, p')"
    by (auto simp add: stop_trial_def WSTOPSIG_W_STOPCODE SIGABRT_def)
qed

section \<open>The retry loops of the frame codec\<close>

text \<open>
  Claim C3 (the codec re-issues a call exactly when that call failed with a retryable
  code). The loops test \<open>errno\<close> after every call, also after one that succeeded and left
  \<open>errno\<close> as the failed call before it had set it. Here the first \<open>write\<close> is
  interrupted, the second writes the whole frame and is issued again at offset 0, twice,
  until a call fails with \<open>EPIPE\<close>, which is then reported although the frame had been
  written. The first \<open>read\<close> is interrupted, the second delivers the whole frame and is
  issued again at offset 0; at end of file every further \<open>read\<close> returns 0 and is issued
  again, so the function does not return.
\<close>

theorem codec_reissues_successful_call:
  "WriteAll lib 4 MakePipedData [Fails EINTR, Done 1040, Done 1040, Fails EPIPE] fresh
     = Returns (ErrnoToStatus lib EPIPE ''Failed to write to pipe'', [],
         \<lparr>errno = EPIPE, calls = [Call_write 4 0 1040, Call_write 4 0 1040,
            Call_write 4 0 1040, Call_write 4 0 1040]\<rparr>)
   \<and> ReadAll lib 3 [Fails EINTR, Done (replicate 1040 0), Done [], Done []] fresh
     = No_return Blocked \<lparr>errno = EINTR, calls = [Call_read 3 0 1040, Call_read 3 0 1040,
            Call_read 3 0 1040, Call_read 3 0 1040, Call_read 3 0 1040]\<rparr>"
  by (simp add: WriteAll_def WriteAll_loop.simps ReadAll_def ReadAll_loop.simps
        MakePipedData_def sizeof_PipedData_def IsRetryable_def EINTR_def EAGAIN_def
        EWOULDBLOCK_def EPIPE_def issue_def fresh_def)

section \<open>What one trial does to the addresses\<close>

text \<open>
  Claim C10. A trial that returns leaves \<open>block_size\<close> and \<open>initial_regs\<close> as they
  were, and \<open>accessed_blocks\<close> is either unchanged or the old sequence with one new
  element, not present before, appended at its end. So its length grows by zero or by one.
\<close>

theorem trial_appends_at_most_one:
  assumes "ForkAndTestAddresses lib t basic_block aa p = Returns (st, aa', p')"
  shows "block_size aa' = block_size aa \<and> initial_regs aa' = initial_regs aa
       \<and> (accessed_blocks aa' = accessed_blocks aa
           \<or> (\<exists>a. a \<notin> set (accessed_blocks aa) \<and> accessed_blocks aa' = accessed_blocks aa @ [a]))
       \<and> (length (accessed_blocks aa') = length (accessed_blocks aa)
           \<or> length (accessed_blocks aa') = length (accessed_blocks aa) + 1)"
proof -
  from trial_frame [OF assms]
  have "accessed_blocks aa' = accessed_blocks aa
      \<or> (\<exists>a. a \<notin> set (accessed_blocks aa) \<and> accessed_blocks aa' = accessed_blocks aa @ [a])"
    by blast
  then have "length (accessed_blocks aa') = length (accessed_blocks aa)
           \<or> length (accessed_blocks aa') = length (accessed_blocks aa) + 1"
    by auto
  with trial_frame [OF assms] show ?thesis by blast
qed

theorem trial_appends_at_most_one_witness:
  "\<exists>st aa' p'. ForkAndTestAddresses plain_lib
       (stop_trial SIGSEGV 0x50015123 [Done (ok_frame kDefaultCodeLocation)]) []
       (initial_accessed_addrs 4096) fresh = Returns (st, aa', p')
     \<and> block_size aa' = 4096
     \<and> initial_regs aa' = initial_regs (initial_accessed_addrs 4096)
     \<and> accessed_blocks aa' = [0x50015000]"
proof -
  have a: "AlignDown 0x50015123 (block_size (initial_accessed_addrs 4096)) = Some 0x50015000"
    by (simp add: AlignDown_def initial_accessed_addrs_def)
  have r: "\<not> IsRetryable (errno fresh)"
    by (simp add: fresh_def IsRetryable_def EINTR_def EAGAIN_def EWOULDBLOCK_def)
  note run = trial_segv_ok [where lib = plain_lib and bb = "[]" and rs = "[]"
      and d = "ok_frame kDefaultCodeLocation", OF ok_frame_fields(1) ok_frame_fields(2) r a]
  from trial_appends_at_most_one [OF run] run show ?thesis
    by (simp add: initial_accessed_addrs_def)
qed

section \<open>The frame is read after the child is reaped\<close>

text \<open>
  Claim C7. In every run of \<open>ParentProcess\<close>, whether it returns or stays in a call,
  every \<open>read\<close> on the pipe comes after the \<open>kill\<close> of the child with \<open>SIGKILL\<close>
  and a later \<open>waitpid\<close> on it. If the run returns ok, then the stop was classified ok,
  the kill succeeded, \<open>ReadAll\<close> returned a frame whose status code is ok, and the
  result is the classified addresses with \<open>code_location\<close> set to that frame's
  \<open>code_address\<close>; if it returns an error, \<open>code_location\<close> is what it was.
  Conversely, whenever the stop is classified ok, the kill succeeds and \<open>ReadAll\<close>
  returns a frame with the ok status, the run returns ok with that assignment. The frame
  \<open>ReadAll\<close> returns is what the pipe delivered: when \<open>errno\<close> holds no retryable
  code at entry and the reads deliver the 1040 bytes in non-empty pieces, \<open>ReadAll\<close>
  reads each piece at its offset, closes the descriptor and returns the pieces put
  together; so in such a trial \<open>code_location\<close> becomes the \<open>code_address\<close> the
  child wrote.
\<close>

theorem ParentProcess_reads_after_reaping:
  "(ParentProcess lib t pid fd aa p = Returns (st, aa', p')
      \<or> ParentProcess lib t pid fd aa p = No_return s p' \<longrightarrow>
      (\<forall>i. length (calls p) \<le> i \<and> i < length (calls p') \<and> read_call fd (calls p' ! i) \<longrightarrow>
          (\<exists>j k. length (calls p) \<le> j \<and> j < k \<and> k < i
             \<and> calls p' ! j = Call_kill pid SIGKILL \<and> calls p' ! k = Call_waitpid pid)))
   \<and> (ParentProcess lib t pid fd aa p = Returns (st, aa', p') \<longrightarrow>
        (ok st \<longrightarrow>
           (\<exists>st1 aa1 p1 d rs. ParentProcessInner lib t pid aa p = Returns (st1, aa1, p1)
              \<and> ok st1 \<and> kill_ret t = 0
              \<and> ReadAll lib fd (reads t) (reaped pid p1) = Returns (Inr d, rs, p')
              \<and> status_code d = kOk \<and> aa' = aa1\<lparr>code_location := code_address d\<rparr>))
        \<and> (\<not> ok st \<longrightarrow> code_location aa' = code_location aa))
   \<and> (ParentProcessInner lib t pid aa p = Returns (st1, aa1, p1) \<and> ok st1 \<and> kill_ret t = 0
        \<and> ReadAll lib fd (reads t) (reaped pid p1) = Returns (Inr d, rs, q)
        \<and> status_code d = kOk \<longrightarrow>
        ParentProcess lib t pid fd aa p
          = Returns (OkStatus, aa1\<lparr>code_location := code_address d\<rparr>, q))
   \<and> (\<not> IsRetryable (errno p0) \<and> (\<forall>c\<in>set chunks. c \<noteq> [])
        \<and> length (concat chunks) = sizeof_PipedData \<longrightarrow>
        ReadAll lib fd (map Done chunks @ rest) p0
          = Returns (Inr (concat chunks), rest,
              p0\<lparr>calls := calls p0 @ read_calls fd 0 chunks @ [Call_close fd]\<rparr>))
   \<and> (ParentProcessInner lib t pid aa p = Returns (st1, aa1, p1) \<and> ok st1 \<and> kill_ret t = 0
        \<and> reads t = map Done chunks @ rest
        \<and> \<not> IsRetryable (errno p) \<and> (\<forall>c\<in>set chunks. c \<noteq> [])
        \<and> length (concat chunks) = sizeof_PipedData \<and> status_code (concat chunks) = kOk \<longrightarrow>
        ParentProcess lib t pid fd aa p
          = Returns (OkStatus, aa1\<lparr>code_location := code_address (concat chunks)\<rparr>,
              p1\<lparr>calls := calls p1 @ [Call_kill pid SIGKILL, Call_waitpid pid]
                    @ read_calls fd 0 chunks @ [Call_close fd]\<rparr>))"
proof (intro conjI impI allI)
  fix i
  assume run: "ParentProcess lib t pid fd aa p = Returns (st, aa', p')
      \<or> ParentProcess lib t pid fd aa p = No_return s p'"
  assume i: "length (calls p) \<le> i \<and> i < length (calls p') \<and> read_call fd (calls p' ! i)"
  from ParentProcess_shape [OF run] obtain xs zs where
    zs: "calls p' = calls p @ xs @ zs" and xs: "\<forall>e\<in>set xs. trace_call pid e"
    and zs_shape: "zs = [] \<or> zs = [Call_kill pid SIGKILL]
          \<or> (\<exists>ws. zs = Call_kill pid SIGKILL # Call_waitpid pid # ws)"
    by blast
  have no_read: "\<not> read_call fd e" if "trace_call pid e" for e
    using that by (cases e) (simp_all add: trace_call_def read_call_def)
  let ?n = "length (calls p) + length xs"
  have not_in_xs: "\<not> i < ?n"
  proof
    assume "i < ?n"
    with i have "calls p' ! i = xs ! (i - length (calls p))" and "i - length (calls p) < length xs"
      by (auto simp add: zs nth_append)
    with xs i no_read show False by (metis nth_mem)
  qed
  from zs_shape consider (none) "zs = []" | (kill) "zs = [Call_kill pid SIGKILL]"
    | (reap) ws where "zs = Call_kill pid SIGKILL # Call_waitpid pid # ws"
    by blast
  then show "\<exists>j k. length (calls p) \<le> j \<and> j < k \<and> k < i
             \<and> calls p' ! j = Call_kill pid SIGKILL \<and> calls p' ! k = Call_waitpid pid"
  proof cases
    case none
    with zs i not_in_xs show ?thesis by simp
  next
    case kill
    then have "calls p' ! ?n = Call_kill pid SIGKILL"
      by (simp add: zs nth_append)
    with i have "i \<noteq> ?n" by (auto simp add: read_call_def)
    with kill zs i not_in_xs show ?thesis by simp
  next
    case reap
    have k: "calls p' ! ?n = Call_kill pid SIGKILL"
      by (simp add: zs reap nth_append)
    have w: "calls p' ! Suc ?n = Call_waitpid pid"
      by (simp add: zs reap nth_append)
    from k i have "i \<noteq> ?n" by (auto simp add: read_call_def)
    moreover from w i have "i \<noteq> Suc ?n" by (auto simp add: read_call_def)
    ultimately have "Suc ?n < i" using not_in_xs by simp
    with k w show ?thesis
      by (intro exI [of _ ?n] exI [of _ "Suc ?n"]) simp
  qed
next
  assume run: "ParentProcess lib t pid fd aa p = Returns (st, aa', p')" and "ok st"
  with ParentProcess_result [OF run]
  show "\<exists>st1 aa1 p1 d rs. ParentProcessInner lib t pid aa p = Returns (st1, aa1, p1)
              \<and> ok st1 \<and> kill_ret t = 0
              \<and> ReadAll lib fd (reads t) (reaped pid p1) = Returns (Inr d, rs, p')
              \<and> status_code d = kOk \<and> aa' = aa1\<lparr>code_location := code_address d\<rparr>"
    by auto
next
  assume run: "ParentProcess lib t pid fd aa p = Returns (st, aa', p')" and nok: "\<not> ok st"
  from ParentProcess_result [OF run] obtain st1 aa1 p1 where
    inner: "ParentProcessInner lib t pid aa p = Returns (st1, aa1, p1)"
    and "aa' = aa1 \<or> st = OkStatus"
    by blast
  with nok have "aa' = aa1" by (auto simp add: ok_OkStatus)
  moreover from ParentProcessInner_result(3) [OF inner]
  have "code_location aa1 = code_location aa" by auto
  ultimately show "code_location aa' = code_location aa" by simp
next
  assume "ParentProcessInner lib t pid aa p = Returns (st1, aa1, p1) \<and> ok st1 \<and> kill_ret t = 0
        \<and> ReadAll lib fd (reads t) (reaped pid p1) = Returns (Inr d, rs, q)
        \<and> status_code d = kOk"
  then show "ParentProcess lib t pid fd aa p
          = Returns (OkStatus, aa1\<lparr>code_location := code_address d\<rparr>, q)"
    by (simp add: ParentProcess_def Let_def reaped_def)
next
  assume "\<not> IsRetryable (errno p0) \<and> (\<forall>c\<in>set chunks. c \<noteq> [])
        \<and> length (concat chunks) = sizeof_PipedData"
  then show "ReadAll lib fd (map Done chunks @ rest) p0
          = Returns (Inr (concat chunks), rest,
              p0\<lparr>calls := calls p0 @ read_calls fd 0 chunks @ [Call_close fd]\<rparr>)"
    by (intro ReadAll_chunks) simp_all
next
  assume h: "ParentProcessInner lib t pid aa p = Returns (st1, aa1, p1) \<and> ok st1 \<and> kill_ret t = 0
        \<and> reads t = map Done chunks @ rest
        \<and> \<not> IsRetryable (errno p) \<and> (\<forall>c\<in>set chunks. c \<noteq> [])
        \<and> length (concat chunks) = sizeof_PipedData \<and> status_code (concat chunks) = kOk"
  then have inner: "ParentProcessInner lib t pid aa p = Returns (st1, aa1, p1)" by simp
  from ParentProcessInner_result(1) [OF inner] h
  have r: "\<not> IsRetryable (errno (reaped pid p1))" by (simp add: reaped_def)
  from h have "ReadAll lib fd (reads t) (reaped pid p1)
      = Returns (Inr (concat chunks), rest,
          (reaped pid p1)\<lparr>calls := calls (reaped pid p1) @ read_calls fd 0 chunks @ [Call_close fd]\<rparr>)"
    using ReadAll_chunks [OF r, of chunks lib fd rest] by simp
  with h inner show "ParentProcess lib t pid fd aa p
          = Returns (OkStatus, aa1\<lparr>code_location := code_address (concat chunks)\<rparr>,
              p1\<lparr>calls := calls p1 @ [Call_kill pid SIGKILL, Call_waitpid pid]
                    @ read_calls fd 0 chunks @ [Call_close fd]\<rparr>)"
    by (simp add: ParentProcess_def Let_def reaped_def issue_def)
qed

theorem ParentProcess_reads_after_reaping_witness:
  "ParentProcess plain_lib
       (stop_trial SIGSEGV 0x50015123
          [Done (take 4 (ok_frame 0x7F3A12345000)), Done (drop 4 (ok_frame 0x7F3A12345000))])
       1000 3 (initial_accessed_addrs 4096) fresh
     = Returns (OkStatus,
         (initial_accessed_addrs 4096)\<lparr>accessed_blocks := [0x50015000],
            code_location := 0x7F3A12345000\<rparr>,
         \<lparr>errno = 0, calls = [Call_waitpid 1000, Call_ptrace PTRACE_CONT 1000,
            Call_waitpid 1000, Call_ptrace PTRACE_GETSIGINFO 1000,
            Call_kill 1000 SIGKILL, Call_waitpid 1000,
            Call_read 3 0 1040, Call_read 3 4 1036, Call_close 3]\<rparr>)"
proof -
  let ?f = "ok_frame 0x7F3A12345000"
  let ?chunks = "[take 4 ?f, drop 4 ?f]"
  let ?t = "stop_trial SIGSEGV 0x50015123 (map Done ?chunks @ [])"
  let ?aa = "initial_accessed_addrs 4096"
  let ?p1 = "issue (Call_ptrace PTRACE_GETSIGINFO 1000) (issue (Call_waitpid 1000)
      (issue (Call_ptrace PTRACE_CONT 1000) (issue (Call_waitpid 1000) fresh)))"
  have a: "AlignDown 0x50015123 (block_size ?aa) = Some 0x50015000"
    by (simp add: AlignDown_def initial_accessed_addrs_def)
  have inner: "ParentProcessInner plain_lib ?t 1000 ?aa fresh
      = Returns (OkStatus, ?aa\<lparr>accessed_blocks := [0x50015000]\<rparr>, ?p1)"
    using a by (simp add: ParentProcessInner_def Let_def) (simp add: initial_accessed_addrs_def)
  have len: "length ?f = 1040"
    by (simp add: ok_frame_fields(1) sizeof_PipedData_def)
  have ne: "\<forall>c\<in>set ?chunks. c \<noteq> []"
    using len by auto
  have r: "\<not> IsRetryable (errno fresh)"
    by (simp add: errno_fresh IsRetryable_def EINTR_def EAGAIN_def EWOULDBLOCK_def)
  have cat: "concat ?chunks = ?f" by simp
  have rc: "read_calls 3 0 ?chunks = [Call_read 3 0 1040, Call_read 3 4 1036]"
    using len by (simp add: sizeof_PipedData_def)
  from ParentProcess_reads_after_reaping [THEN conjunct2, THEN conjunct2, THEN conjunct2,
      THEN conjunct2, rule_format, where t = ?t and chunks = ?chunks and rest = "[]"
      and lib = plain_lib and pid = 1000 and aa = ?aa and p = fresh and fd = 3,
      OF conjI [OF inner]]
  have "ParentProcess plain_lib ?t 1000 3 ?aa fresh
      = Returns (OkStatus,
          ?aa\<lparr>accessed_blocks := [0x50015000], code_location := code_address (concat ?chunks)\<rparr>,
          ?p1\<lparr>calls := calls ?p1 @ [Call_kill 1000 SIGKILL, Call_waitpid 1000]
                @ read_calls 3 0 ?chunks @ [Call_close 3]\<rparr>)"
    using ne r unfolding cat
    by (simp add: ok_OkStatus ok_frame_fields sizeof_PipedData_def)
  then show ?thesis
    unfolding rc cat by (simp add: ok_frame_fields(3) fresh_def issue_def)
qed

section \<open>Killing, reaping and the pipe on the exit paths\<close>

text \<open>
  Claim C2, as stated (on every exit path the pipe is drained and closed), fails: when the
  second stop is a floating-point exception the parent kills and reaps the child and
  returns the error; the frame the child wrote stays unread and the descriptor is not
  closed.
\<close>

theorem ParentProcess_leaves_pipe_untouched:
  "ParentProcess plain_lib (stop_trial SIGFPE 0 [Done (ok_frame kDefaultCodeLocation)]) 1000 3
       (initial_accessed_addrs 4096) fresh
     = Returns (InvalidArgumentError ''Floating point exception'', initial_accessed_addrs 4096,
         \<lparr>errno = 0, calls = [Call_waitpid 1000, Call_ptrace PTRACE_CONT 1000,
            Call_waitpid 1000, Call_kill 1000 SIGKILL, Call_waitpid 1000]\<rparr>)
   \<and> \<not> (\<exists>off n. Call_read 3 off n \<in> set [Call_waitpid 1000, Call_ptrace PTRACE_CONT 1000,
            Call_waitpid 1000, Call_kill 1000 SIGKILL, Call_waitpid 1000])
   \<and> Call_close 3 \<notin> set [Call_waitpid 1000, Call_ptrace PTRACE_CONT 1000,
            Call_waitpid 1000, Call_kill 1000 SIGKILL, Call_waitpid 1000]"
  by (simp add: ParentProcess_def ParentProcessInner_def Let_def InvalidArgumentError_not_ok
        fresh_def)

text \<open>
  Claim C2, amended. On every exit path the parent first issues only \<open>waitpid\<close> and
  \<open>ptrace\<close> calls on the child and then sends it \<open>SIGKILL\<close>. If that call fails, it
  returns an internal error at once. Otherwise it waits for the child next, and every
  later call is a \<open>read\<close> or a \<open>close\<close> on the pipe's read end; there are such calls
  only if the stop was classified ok (when it was not, the function returns the error of
  the classification right after the \<open>waitpid\<close>); and on a successful return they are
  the \<open>read\<close> of the frame at offset 0, further \<open>read\<close> calls if any, and the
  \<open>close\<close>, which is the last call. The exit paths are these: the kill failed; the
  stop was not classified ok; \<open>ReadAll\<close> returned an error; the frame carries an error;
  the frame carries the ok status. Each of them is taken whenever its condition holds.
\<close>

theorem ParentProcess_kills_and_reaps:
  "(ParentProcess lib t pid fd aa p = Returns (st, aa', p') \<longrightarrow>
      (\<exists>xs ys. calls p' = calls p @ xs @ Call_kill pid SIGKILL # ys
         \<and> (\<forall>e\<in>set xs. trace_call pid e)
         \<and> (kill_ret t \<noteq> 0 \<longrightarrow> ys = [])
         \<and> (kill_ret t = 0 \<longrightarrow>
              (\<exists>zs. ys = Call_waitpid pid # zs \<and> (\<forall>e\<in>set zs. pipe_call fd e)
                 \<and> (zs \<noteq> [] \<longrightarrow> (\<exists>st1 aa1 p1.
                       ParentProcessInner lib t pid aa p = Returns (st1, aa1, p1) \<and> ok st1))
                 \<and> (ok st \<longrightarrow>
                       (\<exists>ws. zs = Call_read fd 0 sizeof_PipedData # ws @ [Call_close fd]
                          \<and> (\<forall>e\<in>set ws. read_call fd e)))))))
   \<and> (ParentProcessInner lib t pid aa p = Returns (st1, aa1, p1) \<and> kill_ret t \<noteq> 0 \<longrightarrow>
        ParentProcess lib t pid fd aa p =
          Returns (InternalError (StrFormat lib ''Failed to kill child process: %s''
                     [Arg_str (strerror lib (kill_ret t))]),
            aa1, issue (Call_kill pid SIGKILL) p1))
   \<and> (ParentProcessInner lib t pid aa p = Returns (st1, aa1, p1) \<and> kill_ret t = 0
        \<and> \<not> ok st1 \<longrightarrow>
        ParentProcess lib t pid fd aa p = Returns (st1, aa1, reaped pid p1))
   \<and> (ParentProcessInner lib t pid aa p = Returns (st1, aa1, p1) \<and> kill_ret t = 0
        \<and> ok st1 \<and> ReadAll lib fd (reads t) (reaped pid p1) = Returns (Inl e, rs, q) \<longrightarrow>
        ParentProcess lib t pid fd aa p = Returns (e, aa1, q))
   \<and> (ParentProcessInner lib t pid aa p = Returns (st1, aa1, p1) \<and> kill_ret t = 0
        \<and> ok st1 \<and> ReadAll lib fd (reads t) (reaped pid p1) = Returns (Inr d, rs, q)
        \<and> status_code d \<noteq> kOk \<and> status_message d = Some m \<longrightarrow>
        ParentProcess lib t pid fd aa p = Returns (absl_Status (status_code d) m, aa1, q))
   \<and> (ParentProcessInner lib t pid aa p = Returns (st1, aa1, p1) \<and> kill_ret t = 0
        \<and> ok st1 \<and> ReadAll lib fd (reads t) (reaped pid p1) = Returns (Inr d, rs, q)
        \<and> status_code d = kOk \<longrightarrow>
        ParentProcess lib t pid fd aa p
          = Returns (OkStatus, aa1\<lparr>code_location := code_address d\<rparr>, q))"
proof (intro conjI impI)
  assume run: "ParentProcess lib t pid fd aa p = Returns (st, aa', p')"
  from ParentProcess_result [OF run] obtain st1 aa1 p1 where
    inner: "ParentProcessInner lib t pid aa p = Returns (st1, aa1, p1)" and
    cases: "(kill_ret t \<noteq> 0 \<and> \<not> ok st \<and> aa' = aa1 \<and> p' = issue (Call_kill pid SIGKILL) p1)
       \<or> (kill_ret t = 0 \<and> \<not> ok st1 \<and> st = st1 \<and> aa' = aa1 \<and> p' = reaped pid p1)
       \<or> (kill_ret t = 0 \<and> ok st1 \<and>
            (\<exists>r rs. ReadAll lib fd (reads t) (reaped pid p1) = Returns (r, rs, p')
                \<and> (ok st \<longrightarrow> (\<exists>d. r = Inr d))))"
    by (auto simp add: ok_OkStatus)
  from ParentProcessInner_result(2) [OF inner] obtain xs where
    xs: "calls p1 = calls p @ xs" "\<forall>e\<in>set xs. trace_call pid e"
    by blast
  from cases consider
    (kill_failed) "kill_ret t \<noteq> 0" "\<not> ok st" "p' = issue (Call_kill pid SIGKILL) p1"
    | (not_ok) "kill_ret t = 0" "\<not> ok st1" "\<not> ok st" "p' = reaped pid p1"
    | (read) r rs where "kill_ret t = 0" "ok st1"
        "ReadAll lib fd (reads t) (reaped pid p1) = Returns (r, rs, p')"
        "ok st \<longrightarrow> (\<exists>d. r = Inr d)"
    by blast
  then show "\<exists>xs ys. calls p' = calls p @ xs @ Call_kill pid SIGKILL # ys
         \<and> (\<forall>e\<in>set xs. trace_call pid e)
         \<and> (kill_ret t \<noteq> 0 \<longrightarrow> ys = [])
         \<and> (kill_ret t = 0 \<longrightarrow>
              (\<exists>zs. ys = Call_waitpid pid # zs \<and> (\<forall>e\<in>set zs. pipe_call fd e)
                 \<and> (zs \<noteq> [] \<longrightarrow> (\<exists>st1 aa1 p1.
                       ParentProcessInner lib t pid aa p = Returns (st1, aa1, p1) \<and> ok st1))
                 \<and> (ok st \<longrightarrow>
                       (\<exists>ws. zs = Call_read fd 0 sizeof_PipedData # ws @ [Call_close fd]
                          \<and> (\<forall>e\<in>set ws. read_call fd e)))))"
  proof cases
    case kill_failed
    with xs show ?thesis
      by (intro exI [of _ xs] exI [of _ "[]"]) simp
  next
    case not_ok
    with xs show ?thesis
      by (intro exI [of _ xs] exI [of _ "[Call_waitpid pid]"]) (simp add: reaped_def)
  next
    case read
    from ReadAll_result [OF read(3)] obtain zs where
      zs: "calls p' = calls (reaped pid p1) @ zs" "\<forall>e\<in>set zs. pipe_call fd e"
      "case r of
         Inl st \<Rightarrow> \<not> ok st \<and> (\<forall>e\<in>set zs. read_call fd e)
       | Inr d \<Rightarrow> length d = sizeof_PipedData \<and> zs \<noteq> [] \<and> last zs = Call_close fd
                  \<and> (\<forall>e\<in>set (butlast zs). read_call fd e)"
      by blast
    from ReadAll_trace [of lib fd "reads t" "reaped pid p1" r rs p'] read(3) zs(1)
    obtain ws' where first: "zs = Call_read fd 0 sizeof_PipedData # ws'"
      by auto
    have "\<exists>ws. zs = Call_read fd 0 sizeof_PipedData # ws @ [Call_close fd]
        \<and> (\<forall>e\<in>set ws. read_call fd e)" if "ok st"
    proof -
      from that read(4) zs(3) have l: "last zs = Call_close fd"
        and b: "\<forall>e\<in>set (butlast zs). read_call fd e" by auto
      from l first have ne: "ws' \<noteq> []" by auto
      with l first have "last ws' = Call_close fd" by simp
      with ne have "ws' = butlast ws' @ [Call_close fd]"
        by (metis append_butlast_last_id)
      moreover from b first ne have "\<forall>e\<in>set (butlast ws'). read_call fd e" by simp
      ultimately show ?thesis using first by metis
    qed
    with zs(1,2) xs read(1,2) inner show ?thesis
      by (intro exI [of _ xs] exI [of _ "Call_waitpid pid # zs"]) (simp add: reaped_def)
  qed
next
  assume "ParentProcessInner lib t pid aa p = Returns (st1, aa1, p1) \<and> kill_ret t \<noteq> 0"
  then show "ParentProcess lib t pid fd aa p =
          Returns (InternalError (StrFormat lib ''Failed to kill child process: %s''
                     [Arg_str (strerror lib (kill_ret t))]),
            aa1, issue (Call_kill pid SIGKILL) p1)"
    by (simp add: ParentProcess_def Let_def)
next
  assume "ParentProcessInner lib t pid aa p = Returns (st1, aa1, p1) \<and> kill_ret t = 0
        \<and> \<not> ok st1"
  then show "ParentProcess lib t pid fd aa p = Returns (st1, aa1, reaped pid p1)"
    by (simp add: ParentProcess_def Let_def reaped_def)
next
  assume "ParentProcessInner lib t pid aa p = Returns (st1, aa1, p1) \<and> kill_ret t = 0
        \<and> ok st1 \<and> ReadAll lib fd (reads t) (reaped pid p1) = Returns (Inl e, rs, q)"
  then show "ParentProcess lib t pid fd aa p = Returns (e, aa1, q)"
    by (simp add: ParentProcess_def Let_def reaped_def)
next
  assume "ParentProcessInner lib t pid aa p = Returns (st1, aa1, p1) \<and> kill_ret t = 0
        \<and> ok st1 \<and> ReadAll lib fd (reads t) (reaped pid p1) = Returns (Inr d, rs, q)
        \<and> status_code d \<noteq> kOk \<and> status_message d = Some m"
  then show "ParentProcess lib t pid fd aa p
      = Returns (absl_Status (status_code d) m, aa1, q)"
    by (simp add: ParentProcess_def Let_def reaped_def)
next
  assume "ParentProcessInner lib t pid aa p = Returns (st1, aa1, p1) \<and> kill_ret t = 0
        \<and> ok st1 \<and> ReadAll lib fd (reads t) (reaped pid p1) = Returns (Inr d, rs, q)
        \<and> status_code d = kOk"
  then show "ParentProcess lib t pid fd aa p
          = Returns (OkStatus, aa1\<lparr>code_location := code_address d\<rparr>, q)"
    by (simp add: ParentProcess_def Let_def reaped_def)
qed

theorem ParentProcess_kills_and_reaps_witness:
  "\<exists>aa' p'. ParentProcess plain_lib
       (stop_trial SIGABRT 0 [Done (ok_frame kDefaultCodeLocation)]) 1000 3
       (initial_accessed_addrs 4096) fresh = Returns (OkStatus, aa', p')
     \<and> calls p' = [Call_waitpid 1000, Call_ptrace PTRACE_CONT 1000, Call_waitpid 1000,
         Call_kill 1000 SIGKILL, Call_waitpid 1000, Call_read 3 0 sizeof_PipedData, Call_close 3]
     \<and> (\<exists>xs ws. calls p' = xs @ Call_kill 1000 SIGKILL # Call_waitpid 1000
            # Call_read 3 0 sizeof_PipedData # ws @ [Call_close 3])"
proof -
  let ?t = "stop_trial SIGABRT 0 [Done (ok_frame kDefaultCodeLocation)]"
  let ?p1 = "issue (Call_waitpid 1000) (issue (Call_ptrace PTRACE_CONT 1000)
      (issue (Call_waitpid 1000) fresh))"
  let ?p' = "issue (Call_close 3) (issue (Call_read 3 0 sizeof_PipedData) (reaped 1000 ?p1))"
  have inner: "ParentProcessInner plain_lib ?t 1000 (initial_accessed_addrs 4096) fresh
      = Returns (OkStatus, initial_accessed_addrs 4096, ?p1)"
    by (simp add: ParentProcessInner_def Let_def)
  have r: "\<not> IsRetryable (errno (reaped 1000 ?p1))"
    by (simp add: reaped_def fresh_def IsRetryable_def EINTR_def EAGAIN_def EWOULDBLOCK_def)
  have rd: "ReadAll plain_lib 3 [Done (ok_frame kDefaultCodeLocation)] (reaped 1000 ?p1)
      = Returns (Inr (ok_frame kDefaultCodeLocation), [], ?p')"
    by (rule ReadAll_whole_frame [OF ok_frame_fields(1) r])
  have run: "ParentProcess plain_lib ?t 1000 3 (initial_accessed_addrs 4096) fresh
      = Returns (OkStatus,
          (initial_accessed_addrs 4096)\<lparr>code_location := code_address (ok_frame kDefaultCodeLocation)\<rparr>,
          ?p')"
    using rd by (simp add: ParentProcess_def inner Let_def ok_OkStatus reaped_def
        ok_frame_fields(2))
  have c: "calls ?p' = [Call_waitpid 1000, Call_ptrace PTRACE_CONT 1000, Call_waitpid 1000,
      Call_kill 1000 SIGKILL, Call_waitpid 1000, Call_read 3 0 sizeof_PipedData, Call_close 3]"
    by (simp add: reaped_def fresh_def)
  from ParentProcess_kills_and_reaps [THEN conjunct1, rule_format, OF run]
  obtain xs ys zs ws where
    "calls ?p' = calls fresh @ xs @ Call_kill 1000 SIGKILL # ys"
    "ys = Call_waitpid 1000 # zs"
    "zs = Call_read 3 0 sizeof_PipedData # ws @ [Call_close 3]"
    by (auto simp add: ok_OkStatus)
  then have "\<exists>xs ws. calls ?p' = xs @ Call_kill 1000 SIGKILL # Call_waitpid 1000
            # Call_read 3 0 sizeof_PipedData # ws @ [Call_close 3]"
    by (auto simp add: fresh_def)
  with run c show ?thesis by blast
qed

section \<open>The driver loop\<close>

lemma after_trial_invalid:
  assumes "IsInvalidArgument status"
  shows "after_trial n status aa gen =
    (if 100 < n then Return_status status
     else Fall_through
       (aa\<lparr>accessed_blocks := [], initial_regs := fst (RandomiseRegs gen (initial_regs aa))\<rparr>)
       (snd (RandomiseRegs gen (initial_regs aa))))"
  using assms by (simp add: after_trial_def Let_def case_prod_beta)

lemma after_trial_ok: "ok status \<Longrightarrow> after_trial n status aa gen = Fall_through aa gen"
  by (simp add: after_trial_def ok_not_invalid)

lemma after_trial_preserves:
  assumes "after_trial n status aa gen = Fall_through aa2 gen2"
  shows "block_size aa2 = block_size aa
       \<and> (accessed_blocks aa2 = accessed_blocks aa \<or> accessed_blocks aa2 = [])"
  using assms by (auto simp add: after_trial_def Let_def case_prod_beta split: if_splits)

lemma ParentProcessInner_invariant:
  assumes inv: "blocks_aligned_distinct aa"
    and run: "ParentProcessInner lib t pid aa p = Returns (st, aa', p')"
  shows "blocks_aligned_distinct aa'"
proof -
  from ParentProcessInner_result(3) [OF run] show ?thesis
  proof
    assume "aa' = aa"
    with inv show ?thesis by simp
  next
    assume "ok st \<and> (\<exists>a. AlignDown (si_addr t) (block_size aa) = Some a
           \<and> a \<notin> set (accessed_blocks aa)
           \<and> aa' = aa\<lparr>accessed_blocks := accessed_blocks aa @ [a]\<rparr>)"
    then obtain a where a: "AlignDown (si_addr t) (block_size aa) = Some a"
      "a \<notin> set (accessed_blocks aa)" "aa' = aa\<lparr>accessed_blocks := accessed_blocks aa @ [a]\<rparr>"
      by blast
    from AlignDown_multiple(1) [OF a(1)] a(2,3) inv show ?thesis
      by (simp add: blocks_aligned_distinct_def)
  qed
qed

lemma ForkAndTestAddresses_invariant:
  assumes inv: "blocks_aligned_distinct aa"
    and run: "ForkAndTestAddresses lib t bb aa p = Returns (st, aa', p')"
  shows "blocks_aligned_distinct aa'"
proof -
  have parent: "blocks_aligned_distinct b'"
    if "ParentProcess lib t pid fd aa q = Returns (st, b', q')" for pid fd q b' q'
  proof -
    from ParentProcess_result [OF that] obtain st1 b1 q1 where
      inner: "ParentProcessInner lib t pid aa q = Returns (st1, b1, q1)"
      and "b' = b1 \<or> (\<exists>d. b' = b1\<lparr>code_location := code_address d\<rparr>)"
      by blast
    with ParentProcessInner_invariant [OF inv inner] show ?thesis
      by (auto simp add: blocks_aligned_distinct_def)
  qed
  show ?thesis
    using run inv parent
    by (auto simp add: ForkAndTestAddresses_def Let_def split: sysret.splits prod.splits if_splits)
qed

lemma after_trial_invariant:
  assumes "blocks_aligned_distinct aa" and "after_trial n status aa gen = Fall_through aa2 gen2"
  shows "blocks_aligned_distinct aa2"
  using after_trial_preserves [OF assms(2)] assms(1)
  by (auto simp add: blocks_aligned_distinct_def)

lemma ForkAndTestAddresses_block_size:
  "ForkAndTestAddresses lib t bb aa p = Returns (st, aa', p') \<Longrightarrow> block_size aa' = block_size aa"
  using trial_frame by blast

lemma loop_step:
  assumes "ForkAndTestAddresses lib t bb aa p = Returns (status, aa1, p1)"
  shows "FindAccessedAddrs_loop lib bb n aa gen (t # ts) p =
     (if IsInvalidArgument status then
        if 100 < n then Returns (Inl status, ts, p1)
        else if accessed_blocks aa = [] then
          Returns (Inr (aa1\<lparr>accessed_blocks := [],
            initial_regs := fst (RandomiseRegs gen (initial_regs aa1))\<rparr>), ts, p1)
        else FindAccessedAddrs_loop lib bb (n + 1)
          (aa1\<lparr>accessed_blocks := [],
             initial_regs := fst (RandomiseRegs gen (initial_regs aa1))\<rparr>)
          (snd (RandomiseRegs gen (initial_regs aa1))) ts p1
      else if \<not> ok status then Returns (Inl status, ts, p1)
      else if length (accessed_blocks aa1) = length (accessed_blocks aa)
        then Returns (Inr aa1, ts, p1)
      else FindAccessedAddrs_loop lib bb (n + 1) aa1 gen ts p1)"
proof (cases "IsInvalidArgument status")
  case True
  then show ?thesis
    using assms by (auto simp add: after_trial_invalid)
next
  case False
  then show ?thesis
    using assms by (auto simp add: after_trial_def)
qed

lemma loop_prefix:
  "(\<exists>aa' gen' q. \<forall>ts. FindAccessedAddrs_loop lib bb n aa gen (pre @ ts) p
        = FindAccessedAddrs_loop lib bb (n + length pre) aa' gen' ts q)
   \<or> (\<exists>s q. \<forall>ts. FindAccessedAddrs_loop lib bb n aa gen (pre @ ts) p = No_return s q)
   \<or> (\<exists>res k q. k < length pre
         \<and> (\<forall>ts. FindAccessedAddrs_loop lib bb n aa gen (pre @ ts) p
                = Returns (res, drop (Suc k) pre @ ts, q)))"
proof (induction pre arbitrary: n aa gen p)
  case Nil
  have "\<forall>ts. FindAccessedAddrs_loop lib bb n aa gen ([] @ ts) p
        = FindAccessedAddrs_loop lib bb (n + length ([] :: trial list)) aa gen ts p"
    by simp
  then show ?case by blast
next
  case (Cons t pre)
  show ?case
  proof (cases "ForkAndTestAddresses lib t bb aa p")
    case (No_return s q)
    then have "\<forall>ts. FindAccessedAddrs_loop lib bb n aa gen ((t # pre) @ ts) p = No_return s q"
      by simp
    then show ?thesis by blast
  next
    case (Returns x)
    obtain status aa1 p1 where x: "x = (status, aa1, p1)" by (cases x) auto
    note trial = Returns [unfolded x]
    have ended: ?thesis
      if "\<forall>ts. FindAccessedAddrs_loop lib bb n aa gen ((t # pre) @ ts) p
              = Returns (res, pre @ ts, p1)" for res
    proof -
      from that have "0 < length (t # pre)
          \<and> (\<forall>ts. FindAccessedAddrs_loop lib bb n aa gen ((t # pre) @ ts) p
                = Returns (res, drop (Suc 0) (t # pre) @ ts, p1))"
        by simp
      then show ?thesis by blast
    qed
    have continued: ?thesis
      if eq: "\<forall>ts. FindAccessedAddrs_loop lib bb n aa gen ((t # pre) @ ts) p
              = FindAccessedAddrs_loop lib bb (n + 1) aa2 gen2 (pre @ ts) p1" for aa2 gen2
    proof -
      from Cons.IH [of "n + 1" aa2 gen2 p1] consider
        (a) aa' gen' q where "\<forall>ts. FindAccessedAddrs_loop lib bb (n + 1) aa2 gen2 (pre @ ts) p1
            = FindAccessedAddrs_loop lib bb (n + 1 + length pre) aa' gen' ts q"
        | (b) s q where "\<forall>ts. FindAccessedAddrs_loop lib bb (n + 1) aa2 gen2 (pre @ ts) p1
            = No_return s q"
        | (c) res k q where "k < length pre"
            "\<forall>ts. FindAccessedAddrs_loop lib bb (n + 1) aa2 gen2 (pre @ ts) p1
                = Returns (res, drop (Suc k) pre @ ts, q)"
        by blast
      then show ?thesis
      proof cases
        case a
        with eq have "\<forall>ts. FindAccessedAddrs_loop lib bb n aa gen ((t # pre) @ ts) p
            = FindAccessedAddrs_loop lib bb (n + length (t # pre)) aa' gen' ts q"
          by (simp add: add.commute add.left_commute)
        then show ?thesis by blast
      next
        case b
        with eq have "\<forall>ts. FindAccessedAddrs_loop lib bb n aa gen ((t # pre) @ ts) p
            = No_return s q"
          by simp
        then show ?thesis by blast
      next
        case c
        with eq have "Suc k < length (t # pre)
          \<and> (\<forall>ts. FindAccessedAddrs_loop lib bb n aa gen ((t # pre) @ ts) p
                = Returns (res, drop (Suc (Suc k)) (t # pre) @ ts, q))"
          by simp
        then show ?thesis by blast
      qed
    qed
    note step = loop_step [OF trial, of n gen]
    show ?thesis
    proof (cases "IsInvalidArgument status")
      case True
      show ?thesis
      proof (cases "100 < n")
        case over: True
        with True step show ?thesis by (intro ended [of "Inl status"]) simp
      next
        case False
        show ?thesis
        proof (cases "accessed_blocks aa = []")
          case empty: True
          with True False step show ?thesis
            by (intro ended [of "Inr (aa1\<lparr>accessed_blocks := [],
                initial_regs := fst (RandomiseRegs gen (initial_regs aa1))\<rparr>)"]) simp
        next
          case nonempty: False
          with True False step show ?thesis
            by (intro continued [of "aa1\<lparr>accessed_blocks := [],
                initial_regs := fst (RandomiseRegs gen (initial_regs aa1))\<rparr>"
                "snd (RandomiseRegs gen (initial_regs aa1))"]) simp
        qed
      qed
    next
      case False
      show ?thesis
      proof (cases "ok status")
        case nok: False
        with False step show ?thesis by (intro ended [of "Inl status"]) simp
      next
        case True
        show ?thesis
        proof (cases "length (accessed_blocks aa1) = length (accessed_blocks aa)")
          case same: True
          with True False step show ?thesis by (intro ended [of "Inr aa1"]) simp
        next
          case grown: False
          with True False step show ?thesis by (intro continued [of aa1 gen]) simp
        qed
      qed
    qed
  qed
qed

lemma loop_invariant:
  "FindAccessedAddrs_loop lib bb n aa gen ts p = Returns (Inr aa', rest, p') \<Longrightarrow>
     blocks_aligned_distinct aa \<Longrightarrow>
     blocks_aligned_distinct aa' \<and> block_size aa' = block_size aa"
proof (induction ts arbitrary: n aa gen p)
  case Nil
  then show ?case by simp
next
  case (Cons t ts)
  show ?case
  proof (cases "ForkAndTestAddresses lib t bb aa p")
    case (No_return s q)
    with Cons.prems show ?thesis by simp
  next
    case (Returns x)
    obtain status aa1 p1 where x: "x = (status, aa1, p1)" by (cases x) auto
    note trial = Returns [unfolded x]
    have inv1: "blocks_aligned_distinct aa1"
      by (rule ForkAndTestAddresses_invariant [OF Cons.prems(2) trial])
    have bs1: "block_size aa1 = block_size aa"
      by (rule ForkAndTestAddresses_block_size [OF trial])
    show ?thesis
    proof (cases "after_trial n status aa1 gen")
      case (Return_status st)
      with Cons.prems trial show ?thesis by simp
    next
      case (Fall_through aa2 gen2)
      have inv2: "blocks_aligned_distinct aa2"
        by (rule after_trial_invariant [OF inv1 Fall_through])
      have bs2: "block_size aa2 = block_size aa"
        using after_trial_preserves [OF Fall_through] bs1 by simp
      show ?thesis
      proof (cases "length (accessed_blocks aa2) \<noteq> length (accessed_blocks aa)")
        case True
        with Cons.prems(1) trial Fall_through
        have "FindAccessedAddrs_loop lib bb (n + 1) aa2 gen2 ts p1 = Returns (Inr aa', rest, p')"
          by simp
        from Cons.IH [OF this inv2] bs2 show ?thesis by simp
      next
        case False
        with Cons.prems(1) trial Fall_through have "aa' = aa2" by simp
        with inv2 bs2 show ?thesis by simp
      qed
    qed
  qed
qed

lemma loop_invalid_count:
  "FindAccessedAddrs_loop lib bb n aa gen ts p = Returns (Inl st, rest, p') \<Longrightarrow>
     IsInvalidArgument st \<Longrightarrow>
     length rest < length ts \<and> 100 < n + (length ts - length rest - 1)"
proof (induction ts arbitrary: n aa gen p)
  case Nil
  then show ?case by simp
next
  case (Cons t ts)
  show ?case
  proof (cases "ForkAndTestAddresses lib t bb aa p")
    case (No_return s q)
    with Cons.prems show ?thesis by simp
  next
    case (Returns x)
    obtain status aa1 p1 where x: "x = (status, aa1, p1)" by (cases x) auto
    note trial = Returns [unfolded x]
    show ?thesis
    proof (cases "after_trial n status aa1 gen")
      case (Return_status st')
      with Cons.prems(1) trial have eq: "st' = st" "rest = ts" by simp_all
      from Return_status eq(1) Cons.prems(2) have "100 < n"
        by (auto simp add: after_trial_def Let_def case_prod_beta split: if_splits)
      with eq(2) show ?thesis by simp
    next
      case (Fall_through aa2 gen2)
      show ?thesis
      proof (cases "length (accessed_blocks aa2) \<noteq> length (accessed_blocks aa)")
        case True
        with Cons.prems(1) trial Fall_through
        have "FindAccessedAddrs_loop lib bb (n + 1) aa2 gen2 ts p1 = Returns (Inl st, rest, p')"
          by simp
        from Cons.IH [OF this Cons.prems(2)] show ?thesis by auto
      next
        case False
        with Cons.prems(1) trial Fall_through show ?thesis by simp
      qed
    qed
  qed
qed

lemma initial_invariant: "blocks_aligned_distinct (initial_accessed_addrs pagesize)"
  by (simp add: blocks_aligned_distinct_def initial_accessed_addrs_def)

lemma unat_page: "i < 2 ^ 52 \<Longrightarrow> unat (page i) = i * 4096"
proof -
  assume "i < 2 ^ 52"
  then have "i * 4096 < 2 ^ 52 * (4096 :: nat)" by simp
  then have lt: "i * 4096 < 2 ^ 64" by simp
  have "unat (page i) = (i * 0x1000) mod 2 ^ LENGTH(64)"
    unfolding page_def by (rule unat_of_nat)
  then have "unat (page i) = (i * 4096) mod 2 ^ 64" by simp
  with lt show ?thesis by simp
qed

lemma page_inj: "i < 2 ^ 52 \<Longrightarrow> j < 2 ^ 52 \<Longrightarrow> page i = page j \<Longrightarrow> i = j"
proof -
  assume "i < 2 ^ 52" "j < 2 ^ 52" "page i = page j"
  then have "i * 4096 = j * 4096" using unat_page by metis
  then show ?thesis by simp
qed

lemma AlignDown_page: "i < 2 ^ 52 \<Longrightarrow> AlignDown (page i) 0x1000 = Some (page i)"
proof -
  assume i: "i < 2 ^ 52"
  have "unat (page i mod 0x1000) = unat (page i) mod 4096"
    by (simp add: unat_mod_distrib)
  with unat_page [OF i] have "unat (page i mod 0x1000) = 0" by simp
  then have "page i mod 0x1000 = 0" by (simp add: unat_eq_0)
  then show ?thesis by (simp add: AlignDown_def)
qed

lemma length_growing_trials: "length (growing_trials j k) = k"
  by (simp add: growing_trials_def)

lemma loop_growing:
  assumes "\<not> IsRetryable (errno p)" and "block_size aa = 0x1000"
    and "accessed_blocks aa = map page [b..<j]" and "b \<le> j" and "j + k \<le> 2 ^ 52"
  shows "\<exists>aa' p'. FindAccessedAddrs_loop lib bb n aa gen (growing_trials j k @ rest) p
           = FindAccessedAddrs_loop lib bb (n + k) aa' gen rest p'
         \<and> errno p' = errno p \<and> block_size aa' = 0x1000
         \<and> accessed_blocks aa' = map page [b..<j + k]"
  using assms
proof (induction k arbitrary: j n aa p)
  case 0
  then show ?case by (auto simp add: growing_trials_def)
next
  case (Suc k)
  let ?f = "ok_frame kDefaultCodeLocation"
  let ?aa1 = "aa\<lparr>accessed_blocks := accessed_blocks aa @ [page j], code_location := code_address ?f\<rparr>"
  let ?p1 = "p\<lparr>calls := calls p @ trial_calls @ [Call_ptrace PTRACE_GETSIGINFO 1000,
                  Call_kill 1000 SIGKILL, Call_waitpid 1000,
                  Call_read 3 0 sizeof_PipedData, Call_close 3]\<rparr>"
  from Suc.prems(5) have j: "j < 2 ^ 52" by simp
  have fresh_page: "page j \<notin> set (accessed_blocks aa)"
  proof
    assume "page j \<in> set (accessed_blocks aa)"
    with Suc.prems(3) obtain i where "i < j" "page i = page j" by auto
    with j page_inj [of i j] show False by simp
  qed
  have al: "AlignDown (page j) (block_size aa) = Some (page j)"
    using AlignDown_page [OF j] Suc.prems(2) by simp
  have trial: "ForkAndTestAddresses lib
      (stop_trial SIGSEGV (page j) [Done ?f]) bb aa p = Returns (OkStatus, ?aa1, ?p1)"
    using trial_segv_ok [where lib = lib and bb = bb and rs = "[]" and d = ?f,
        OF ok_frame_fields(1) ok_frame_fields(2) Suc.prems(1) al] fresh_page
    by simp
  have split: "growing_trials j (Suc k)
      = stop_trial SIGSEGV (page j) [Done ?f] # growing_trials (Suc j) k"
    by (simp add: growing_trials_def upt_conv_Cons del: upt_Suc)
  have step: "FindAccessedAddrs_loop lib bb n aa gen (growing_trials j (Suc k) @ rest) p
      = FindAccessedAddrs_loop lib bb (n + 1) ?aa1 gen (growing_trials (Suc j) k @ rest) ?p1"
    by (simp add: split trial after_trial_ok ok_OkStatus)
  have b1: "accessed_blocks ?aa1 = map page [b..<Suc j]"
    using Suc.prems(3,4) by simp
  from Suc.IH [of ?p1 ?aa1 "Suc j" "n + 1"] Suc.prems b1
  obtain aa' p' where
    "FindAccessedAddrs_loop lib bb (n + 1) ?aa1 gen (growing_trials (Suc j) k @ rest) ?p1
       = FindAccessedAddrs_loop lib bb (n + 1 + k) aa' gen rest p'"
    "errno p' = errno p" "block_size aa' = 0x1000"
    "accessed_blocks aa' = map page [b..<Suc j + k]"
    by auto
  with step show ?case
    by (intro exI [of _ aa'] exI [of _ p']) (simp add: add.commute add.left_commute)
qed

lemma growing_then_fpe:
  "\<exists>p'. FindAccessedAddrs plain_lib 0x1000 (\<lambda>i. Index_1) []
       (growing_trials 16 101 @ [stop_trial SIGFPE 0 []]) fresh
     = Returns (Inl (InvalidArgumentError ''Floating point exception''), [], p')"
proof -
  have r: "\<not> IsRetryable (errno fresh)"
    by (simp add: errno_fresh IsRetryable_def EINTR_def EAGAIN_def EWOULDBLOCK_def)
  from loop_growing [where lib = plain_lib and bb = "[]" and n = 0 and gen = "\<lambda>i. Index_1"
      and aa = "initial_accessed_addrs 0x1000" and b = 16 and j = 16 and k = 101
      and rest = "[stop_trial SIGFPE 0 []]", OF r]
  obtain aa' p' where
    "FindAccessedAddrs_loop plain_lib [] 0 (initial_accessed_addrs 0x1000) (\<lambda>i. Index_1)
        (growing_trials 16 101 @ [stop_trial SIGFPE 0 []]) fresh
       = FindAccessedAddrs_loop plain_lib [] 101 aa' (\<lambda>i. Index_1) [stop_trial SIGFPE 0 []] p'"
    by (auto simp add: initial_accessed_addrs_def)
  then show ?thesis
    by (simp add: FindAccessedAddrs_def trial_fpe after_trial_invalid)
qed

section \<open>A block that always raises a floating-point exception\<close>

text \<open>
  Claim C1 (such a block ends in an invalid-argument error, never in a successful result).
  When the first trial stops with \<open>SIGFPE\<close>, the driver clears \<open>accessed_blocks\<close>,
  which is still empty, randomises the registers, and then finds the number of blocks
  equal to the number before the trial: the loop ends and \<open>FindAccessedAddrs\<close> returns
  the addresses as a success, with no block and \<open>code_location\<close> 0, after this one
  trial (eight calls); the trials that would follow are not run.
\<close>

theorem FindAccessedAddrs_fpe_returns_success:
  assumes "pipe_ret t = Done (rfd, wfd)" and "fork_ret t = Done pid"
    and "pid \<noteq> 0" and "pid \<noteq> - 1"
    and "WIFSTOPPED (first_status t)" and "WIFSTOPPED (second_status t)"
    and "WSTOPSIG (second_status t) = SIGFPE" and "kill_ret t = 0"
  shows "\<exists>aa p'. FindAccessedAddrs lib pagesize gen basic_block (t # ts) p
           = Returns (Inr aa, ts, p')
         \<and> accessed_blocks aa = [] \<and> code_location aa = 0
         \<and> length (calls p') = length (calls p) + 8"
proof -
  let ?aa = "initial_accessed_addrs pagesize"
  let ?st = "InvalidArgumentError ''Floating point exception''"
  have inner: "ParentProcessInner lib t pid ?aa q = Returns (?st, ?aa,
      issue (Call_waitpid pid) (issue (Call_ptrace PTRACE_CONT pid) (issue (Call_waitpid pid) q)))"
    for q
    using assms(5-7) by (simp add: ParentProcessInner_def Let_def)
  have "\<exists>p'. ForkAndTestAddresses lib t basic_block ?aa p = Returns (?st, ?aa, p')
      \<and> length (calls p') = length (calls p) + 8"
    using assms(1-4,8)
    by (simp add: ForkAndTestAddresses_def ParentProcess_def inner Let_def
          InvalidArgumentError_not_ok)
  then obtain p' where trial: "ForkAndTestAddresses lib t basic_block ?aa p = Returns (?st, ?aa, p')"
    and len: "length (calls p') = length (calls p) + 8"
    by blast
  have "FindAccessedAddrs lib pagesize gen basic_block (t # ts) p =
      Returns (Inr (?aa\<lparr>accessed_blocks := [],
        initial_regs := fst (RandomiseRegs gen (initial_regs ?aa))\<rparr>), ts, p')"
    by (simp add: FindAccessedAddrs_def trial after_trial_invalid)
       (simp add: initial_accessed_addrs_def)
  with len show ?thesis
    by (auto simp add: initial_accessed_addrs_def)
qed

theorem FindAccessedAddrs_fpe_returns_success_witness:
  "\<exists>aa p'. FindAccessedAddrs plain_lib 4096 (\<lambda>i. Index_1) [0x48, 0x31, 0xC9, 0x48, 0xF7, 0xF1]
       (replicate 200 (stop_trial SIGFPE 0 [])) fresh
     = Returns (Inr aa, replicate 199 (stop_trial SIGFPE 0 []), p')
     \<and> accessed_blocks aa = []"
proof -
  have r: "replicate 200 (stop_trial SIGFPE 0 [])
      = stop_trial SIGFPE 0 [] # replicate 199 (stop_trial SIGFPE 0 [])"
    by (simp add: replicate_Suc [symmetric] del: replicate_Suc)
  from FindAccessedAddrs_fpe_returns_success [of "stop_trial SIGFPE 0 []" 3 4 1000
      plain_lib 4096 "\<lambda>i. Index_1" "[0x48, 0x31, 0xC9, 0x48, 0xF7, 0xF1]"
      "replicate 199 (stop_trial SIGFPE 0 [])" fresh]
  show ?thesis
    unfolding r by auto
qed

section \<open>The invariant of the accessed blocks\<close>

text \<open>
  Claim C4. The invariant (every element of \<open>accessed_blocks\<close> is a multiple of
  \<open>block_size\<close>, no element occurs twice) is preserved by the supervisor's
  classification of a stop, by a whole trial, and by what the driver does after a trial;
  and every \<open>AccessedAddrs\<close> that \<open>FindAccessedAddrs\<close> returns successfully has
  \<open>block_size\<close> equal to the page size and satisfies it.
\<close>

theorem accessed_blocks_aligned_distinct:
  "(blocks_aligned_distinct aa \<and> ParentProcessInner lib t pid aa p = Returns (st, aa', p')
      \<longrightarrow> blocks_aligned_distinct aa')
   \<and> (blocks_aligned_distinct aa \<and> ForkAndTestAddresses lib t bb aa p = Returns (st2, aa2, p2)
      \<longrightarrow> blocks_aligned_distinct aa2)
   \<and> (blocks_aligned_distinct aa \<and> after_trial n status aa gen = Fall_through aa3 gen3
      \<longrightarrow> blocks_aligned_distinct aa3)
   \<and> (FindAccessedAddrs lib pagesize gen0 bb ts p0 = Returns (Inr result, rest, p4)
      \<longrightarrow> block_size result = pagesize
          \<and> (\<forall>a\<in>set (accessed_blocks result). unat (block_size result) dvd unat a)
          \<and> distinct (accessed_blocks result))"
proof (intro conjI impI)
  assume "blocks_aligned_distinct aa \<and> ParentProcessInner lib t pid aa p = Returns (st, aa', p')"
  then show "blocks_aligned_distinct aa'"
    using ParentProcessInner_invariant by blast
next
  assume "blocks_aligned_distinct aa \<and> ForkAndTestAddresses lib t bb aa p = Returns (st2, aa2, p2)"
  then show "blocks_aligned_distinct aa2"
    using ForkAndTestAddresses_invariant by blast
next
  assume "blocks_aligned_distinct aa \<and> after_trial n status aa gen = Fall_through aa3 gen3"
  then show "blocks_aligned_distinct aa3"
    using after_trial_invariant by blast
next
  assume run: "FindAccessedAddrs lib pagesize gen0 bb ts p0 = Returns (Inr result, rest, p4)"
  from loop_invariant [OF run [unfolded FindAccessedAddrs_def] initial_invariant]
  have "blocks_aligned_distinct result" and bs: "block_size result = pagesize"
    by (simp_all add: initial_accessed_addrs_def)
  then show "block_size result = pagesize" and
    "\<forall>a\<in>set (accessed_blocks result). unat (block_size result) dvd unat a"
    and "distinct (accessed_blocks result)"
    by (simp_all add: blocks_aligned_distinct_def)
qed

theorem accessed_blocks_aligned_distinct_witness:
  "\<exists>result p'. FindAccessedAddrs plain_lib 4096 (\<lambda>i. Index_1) []
       [stop_trial SIGSEGV 0x50015123 [Done (ok_frame kDefaultCodeLocation)],
        stop_trial SIGABRT 0 [Done (ok_frame kDefaultCodeLocation)]] fresh
     = Returns (Inr result, [], p')
     \<and> accessed_blocks result = [0x50015000] \<and> block_size result = 4096
     \<and> unat (4096 :: size_t) dvd unat (0x50015000 :: uintptr_t)"
proof -
  let ?aa = "initial_accessed_addrs 4096"
  let ?f = "ok_frame kDefaultCodeLocation"
  have a: "AlignDown 0x50015123 (block_size ?aa) = Some 0x50015000"
    by (simp add: AlignDown_def initial_accessed_addrs_def)
  have r: "\<not> IsRetryable (errno q)" if "errno q = 0" for q
    using that by (simp add: IsRetryable_def EINTR_def EAGAIN_def EWOULDBLOCK_def)
  note t1 = trial_segv_ok [where lib = plain_lib and bb = "[]" and rs = "[]" and d = ?f
      and p = fresh, OF ok_frame_fields(1) ok_frame_fields(2) r a]
  note t2 = trial_abort_ok [where lib = plain_lib and bb = "[]" and rs = "[]" and d = ?f
      and addr = 0, OF ok_frame_fields(1) ok_frame_fields(2) r]
  have run: "\<exists>result p'. FindAccessedAddrs plain_lib 4096 (\<lambda>i. Index_1) []
       [stop_trial SIGSEGV 0x50015123 [Done ?f], stop_trial SIGABRT 0 [Done ?f]] fresh
     = Returns (Inr result, [], p') \<and> accessed_blocks result = [0x50015000]"
    by (simp add: FindAccessedAddrs_def t1 t2 errno_fresh after_trial_ok ok_OkStatus)
       (simp add: initial_accessed_addrs_def)
  then obtain result p' where run':
    "FindAccessedAddrs plain_lib 4096 (\<lambda>i. Index_1) []
       [stop_trial SIGSEGV 0x50015123 [Done ?f], stop_trial SIGABRT 0 [Done ?f]] fresh
     = Returns (Inr result, [], p')" and blocks: "accessed_blocks result = [0x50015000]"
    by blast
  from accessed_blocks_aligned_distinct [THEN conjunct2, THEN conjunct2, THEN conjunct2,
      rule_format, OF run'] blocks
  have "block_size result = 4096" and "unat (4096 :: size_t) dvd unat (0x50015000 :: uintptr_t)"
    by auto
  with run' blocks show ?thesis by blast
qed

section \<open>The retry cap\<close>

text \<open>
  Claim C5, as stated (successful trials do not consume the retry budget), fails: the
  counter is incremented on every pass. After 101 trials that each succeed and find a new
  page, the first trial that ends in a floating-point exception is returned as
  invalid-argument, although no retry has taken place.
\<close>

theorem successful_trials_use_up_the_retries:
  "\<exists>p'. FindAccessedAddrs plain_lib 0x1000 (\<lambda>i. Index_1) []
       (growing_trials 16 101 @ [stop_trial SIGFPE 0 []]) fresh
     = Returns (Inl (InvalidArgumentError ''Floating point exception''), [], p')"
  by (rule growing_then_fpe)

text \<open>
  Claim C5, amended. The counter \<open>n\<close> counts the passes of the loop, whatever their
  results. One pass at any \<open>n\<close>: an invalid-argument result of the trial is returned if
  \<open>n\<close> exceeds 100 and is answered by clearing \<open>accessed_blocks\<close> and randomising
  the registers otherwise; the loop then ends with a success if there was no block before
  the trial, and goes on with \<open>n + 1\<close> if there was one; a successful trial that found
  a new block goes on with \<open>n + 1\<close> as well. So for every sequence \<open>pre\<close> of trials,
  either \<open>FindAccessedAddrs\<close> ends within them, or it is at the head of its loop with
  \<open>n\<close> equal to their number, and an invalid-argument result of the next trial is
  returned to the caller exactly if that number exceeds 100. \<open>FindAccessedAddrs\<close>
  therefore returns invalid-argument only from its 102nd or a later trial.
\<close>

theorem retries_counted_by_passes:
  "(ForkAndTestAddresses lib t bb aa q = Returns (status, aa1, q1) \<longrightarrow>
      FindAccessedAddrs_loop lib bb n aa gen (t # ts) q =
        (if IsInvalidArgument status then
           if 100 < n then Returns (Inl status, ts, q1)
           else if accessed_blocks aa = [] then
             Returns (Inr (aa1\<lparr>accessed_blocks := [],
               initial_regs := fst (RandomiseRegs gen (initial_regs aa1))\<rparr>), ts, q1)
           else FindAccessedAddrs_loop lib bb (n + 1)
             (aa1\<lparr>accessed_blocks := [],
                initial_regs := fst (RandomiseRegs gen (initial_regs aa1))\<rparr>)
             (snd (RandomiseRegs gen (initial_regs aa1))) ts q1
         else if \<not> ok status then Returns (Inl status, ts, q1)
         else if length (accessed_blocks aa1) = length (accessed_blocks aa)
           then Returns (Inr aa1, ts, q1)
         else FindAccessedAddrs_loop lib bb (n + 1) aa1 gen ts q1))
   \<and> ((\<exists>aa' gen' q'.
          (\<forall>ts. FindAccessedAddrs lib pagesize seed bb (pre @ ts) p
                  = FindAccessedAddrs_loop lib bb (length pre) aa' gen' ts q')
        \<and> (\<forall>t ts status aa1 q1.
              ForkAndTestAddresses lib t bb aa' q' = Returns (status, aa1, q1)
                \<and> IsInvalidArgument status \<longrightarrow>
              FindAccessedAddrs lib pagesize seed bb (pre @ t # ts) p =
                (if 100 < length pre then Returns (Inl status, ts, q1)
                 else if accessed_blocks aa' = [] then
                   Returns (Inr (aa1\<lparr>accessed_blocks := [],
                     initial_regs := fst (RandomiseRegs gen' (initial_regs aa1))\<rparr>), ts, q1)
                 else FindAccessedAddrs_loop lib bb (length pre + 1)
                   (aa1\<lparr>accessed_blocks := [],
                      initial_regs := fst (RandomiseRegs gen' (initial_regs aa1))\<rparr>)
                   (snd (RandomiseRegs gen' (initial_regs aa1))) ts q1)))
      \<or> (\<exists>s q'. \<forall>ts. FindAccessedAddrs lib pagesize seed bb (pre @ ts) p = No_return s q')
      \<or> (\<exists>res k q'. k < length pre
            \<and> (\<forall>ts. FindAccessedAddrs lib pagesize seed bb (pre @ ts) p
                   = Returns (res, drop (Suc k) pre @ ts, q'))))
   \<and> (FindAccessedAddrs lib pagesize seed bb trials p = Returns (Inl st, rest, p')
        \<and> IsInvalidArgument st \<longrightarrow>
        length rest < length trials \<and> 101 < length trials - length rest)"
proof (intro conjI impI)
  assume "ForkAndTestAddresses lib t bb aa q = Returns (status, aa1, q1)"
  then show "FindAccessedAddrs_loop lib bb n aa gen (t # ts) q =
        (if IsInvalidArgument status then
           if 100 < n then Returns (Inl status, ts, q1)
           else if accessed_blocks aa = [] then
             Returns (Inr (aa1\<lparr>accessed_blocks := [],
               initial_regs := fst (RandomiseRegs gen (initial_regs aa1))\<rparr>), ts, q1)
           else FindAccessedAddrs_loop lib bb (n + 1)
             (aa1\<lparr>accessed_blocks := [],
                initial_regs := fst (RandomiseRegs gen (initial_regs aa1))\<rparr>)
             (snd (RandomiseRegs gen (initial_regs aa1))) ts q1
         else if \<not> ok status then Returns (Inl status, ts, q1)
         else if length (accessed_blocks aa1) = length (accessed_blocks aa)
           then Returns (Inr aa1, ts, q1)
         else FindAccessedAddrs_loop lib bb (n + 1) aa1 gen ts q1)"
    by (rule loop_step)
next
  let ?F = "\<lambda>ts. FindAccessedAddrs lib pagesize seed bb ts p"
  from loop_prefix [of lib bb 0 "initial_accessed_addrs pagesize" seed pre p]
  have "(\<exists>aa' gen' q'. \<forall>ts. ?F (pre @ ts)
        = FindAccessedAddrs_loop lib bb (length pre) aa' gen' ts q')
    \<or> (\<exists>s q'. \<forall>ts. ?F (pre @ ts) = No_return s q')
    \<or> (\<exists>res k q'. k < length pre
        \<and> (\<forall>ts. ?F (pre @ ts) = Returns (res, drop (Suc k) pre @ ts, q')))"
    unfolding FindAccessedAddrs_def by simp
  then consider
    (a) aa' gen' q' where "\<forall>ts. ?F (pre @ ts)
        = FindAccessedAddrs_loop lib bb (length pre) aa' gen' ts q'"
    | (b) "\<exists>s q'. \<forall>ts. ?F (pre @ ts) = No_return s q'"
    | (c) "\<exists>res k q'. k < length pre
        \<and> (\<forall>ts. ?F (pre @ ts) = Returns (res, drop (Suc k) pre @ ts, q'))"
    by blast
  then show "(\<exists>aa' gen' q'.
          (\<forall>ts. FindAccessedAddrs lib pagesize seed bb (pre @ ts) p
                  = FindAccessedAddrs_loop lib bb (length pre) aa' gen' ts q')
        \<and> (\<forall>t ts status aa1 q1.
              ForkAndTestAddresses lib t bb aa' q' = Returns (status, aa1, q1)
                \<and> IsInvalidArgument status \<longrightarrow>
              FindAccessedAddrs lib pagesize seed bb (pre @ t # ts) p =
                (if 100 < length pre then Returns (Inl status, ts, q1)
                 else if accessed_blocks aa' = [] then
                   Returns (Inr (aa1\<lparr>accessed_blocks := [],
                     initial_regs := fst (RandomiseRegs gen' (initial_regs aa1))\<rparr>), ts, q1)
                 else FindAccessedAddrs_loop lib bb (length pre + 1)
                   (aa1\<lparr>accessed_blocks := [],
                      initial_regs := fst (RandomiseRegs gen' (initial_regs aa1))\<rparr>)
                   (snd (RandomiseRegs gen' (initial_regs aa1))) ts q1)))
      \<or> (\<exists>s q'. \<forall>ts. FindAccessedAddrs lib pagesize seed bb (pre @ ts) p = No_return s q')
      \<or> (\<exists>res k q'. k < length pre
            \<and> (\<forall>ts. FindAccessedAddrs lib pagesize seed bb (pre @ ts) p
                   = Returns (res, drop (Suc k) pre @ ts, q')))"
  proof cases
    case a
    have "?F (pre @ t # ts) =
                (if 100 < length pre then Returns (Inl status, ts, q1)
                 else if accessed_blocks aa' = [] then
                   Returns (Inr (aa1\<lparr>accessed_blocks := [],
                     initial_regs := fst (RandomiseRegs gen' (initial_regs aa1))\<rparr>), ts, q1)
                 else FindAccessedAddrs_loop lib bb (length pre + 1)
                   (aa1\<lparr>accessed_blocks := [],
                      initial_regs := fst (RandomiseRegs gen' (initial_regs aa1))\<rparr>)
                   (snd (RandomiseRegs gen' (initial_regs aa1))) ts q1)"
      if "ForkAndTestAddresses lib t bb aa' q' = Returns (status, aa1, q1)
                \<and> IsInvalidArgument status" for t ts status aa1 q1
    proof -
      from a have "?F (pre @ t # ts)
          = FindAccessedAddrs_loop lib bb (length pre) aa' gen' (t # ts) q'"
        by blast
      also from that have "\<dots> =
                (if 100 < length pre then Returns (Inl status, ts, q1)
                 else if accessed_blocks aa' = [] then
                   Returns (Inr (aa1\<lparr>accessed_blocks := [],
                     initial_regs := fst (RandomiseRegs gen' (initial_regs aa1))\<rparr>), ts, q1)
                 else FindAccessedAddrs_loop lib bb (length pre + 1)
                   (aa1\<lparr>accessed_blocks := [],
                      initial_regs := fst (RandomiseRegs gen' (initial_regs aa1))\<rparr>)
                   (snd (RandomiseRegs gen' (initial_regs aa1))) ts q1)"
        by (subst loop_step [of lib t bb aa' q' status aa1 q1]) simp_all
      finally show ?thesis .
    qed
    with a show ?thesis by blast
  next
    case b
    then show ?thesis by blast
  next
    case c
    then show ?thesis by blast
  qed
next
  assume run: "FindAccessedAddrs lib pagesize seed bb trials p = Returns (Inl st, rest, p')
        \<and> IsInvalidArgument st"
  from loop_invalid_count [of lib bb 0 "initial_accessed_addrs pagesize" seed trials p st rest p'] run
  have c: "length rest < length trials \<and> 100 < length trials - length rest - 1"
    by (simp add: FindAccessedAddrs_def)
  then show "length rest < length trials" by simp
  from c show "101 < length trials - length rest" by auto
qed

theorem retries_counted_by_passes_witness:
  "(\<exists>p'. FindAccessedAddrs plain_lib 0x1000 (\<lambda>i. Index_1) []
       (growing_trials 16 102 @ [stop_trial SIGFPE 0 []]) fresh
     = Returns (Inl (InvalidArgumentError ''Floating point exception''), [], p'))
   \<and> (\<exists>aa p'. FindAccessedAddrs plain_lib 0x1000 (\<lambda>i. Index_1) []
       (growing_trials 16 100 @ [stop_trial SIGFPE 0 [],
          stop_trial SIGABRT 0 [Done (ok_frame kDefaultCodeLocation)]]) fresh
     = Returns (Inr aa, [], p') \<and> accessed_blocks aa = [])
   \<and> (101 :: nat) < length (growing_trials 16 102 @ [stop_trial SIGFPE 0 []])
        - length ([] :: trial list)"
proof -
  let ?gen = "\<lambda>i :: nat. Index_1"
  let ?F = "\<lambda>ts. FindAccessedAddrs plain_lib 0x1000 ?gen [] ts fresh"
  let ?fpe = "stop_trial SIGFPE 0 []"
  let ?frame = "ok_frame kDefaultCodeLocation"
  let ?abort = "stop_trial SIGABRT 0 [Done ?frame]"
  let ?st = "InvalidArgumentError ''Floating point exception''"
  note main = retries_counted_by_passes
  have r: "\<not> IsRetryable (errno q)" if "errno q = 0" for q
    using that by (simp add: IsRetryable_def EINTR_def EAGAIN_def EWOULDBLOCK_def)
  have grow: "\<exists>aa' p'. ?F (growing_trials 16 k @ ts)
        = FindAccessedAddrs_loop plain_lib [] k aa' ?gen ts p'
      \<and> errno p' = 0 \<and> accessed_blocks aa' = map page [16..<16 + k]"
    if "k \<le> 200" for k ts
    using loop_growing [where lib = plain_lib and bb = "[]" and n = 0 and gen = ?gen
        and aa = "initial_accessed_addrs 0x1000" and b = 16 and j = 16 and k = k
        and rest = ts and p = fresh] that r [of fresh]
    by (auto simp add: FindAccessedAddrs_def errno_fresh initial_accessed_addrs_def)
  have le: "(102 :: nat) \<le> 200" "(100 :: nat) \<le> 200" by simp_all
  have fpe: "ForkAndTestAddresses plain_lib ?fpe [] aa q
      = Returns (?st, aa, q\<lparr>calls := calls q @ trial_calls
          @ [Call_kill 1000 SIGKILL, Call_waitpid 1000]\<rparr>)" for aa q
    by (rule trial_fpe)
  have abort: "ForkAndTestAddresses plain_lib ?abort [] aa q
      = Returns (OkStatus, aa\<lparr>code_location := code_address ?frame\<rparr>,
          q\<lparr>calls := calls q @ trial_calls @ [Call_kill 1000 SIGKILL, Call_waitpid 1000,
             Call_read 3 0 sizeof_PipedData, Call_close 3]\<rparr>)" if "errno q = 0" for aa q
    using trial_abort_ok [where lib = plain_lib and bb = "[]" and rs = "[]" and d = ?frame
        and addr = 0 and aa = aa and p = q, OF ok_frame_fields(1) ok_frame_fields(2) r [OF that]] .
  have 1: "\<exists>p'. ?F (growing_trials 16 102 @ [?fpe]) = Returns (Inl ?st, [], p')"
  proof -
    from main [where lib = plain_lib and pagesize = "0x1000" and seed = ?gen and bb = "[]"
        and pre = "growing_trials 16 102" and p = fresh, THEN conjunct2, THEN conjunct1]
    consider
      (a) aa' gen' q' where
        "\<forall>t ts status aa1 q1.
              ForkAndTestAddresses plain_lib t [] aa' q' = Returns (status, aa1, q1)
                \<and> IsInvalidArgument status \<longrightarrow>
              ?F (growing_trials 16 102 @ t # ts) =
                (if 100 < length (growing_trials 16 102) then Returns (Inl status, ts, q1)
                 else if accessed_blocks aa' = [] then
                   Returns (Inr (aa1\<lparr>accessed_blocks := [],
                     initial_regs := fst (RandomiseRegs gen' (initial_regs aa1))\<rparr>), ts, q1)
                 else FindAccessedAddrs_loop plain_lib [] (length (growing_trials 16 102) + 1)
                   (aa1\<lparr>accessed_blocks := [],
                      initial_regs := fst (RandomiseRegs gen' (initial_regs aa1))\<rparr>)
                   (snd (RandomiseRegs gen' (initial_regs aa1))) ts q1)"
      | (b) s q' where "\<forall>ts. ?F (growing_trials 16 102 @ ts) = No_return s q'"
      | (c) res k q' where "\<forall>ts. ?F (growing_trials 16 102 @ ts)
          = Returns (res, drop (Suc k) (growing_trials 16 102) @ ts, q')"
      by blast
    then show ?thesis
    proof cases
      case a
      from a [rule_format, where t = ?fpe and ts = "[]", OF conjI, OF fpe [of aa' q']]
      show ?thesis by (simp add: length_growing_trials)
    next
      case b
      from grow [of 102 "[?abort]", OF le(1)] obtain aa' p' where
        g: "?F (growing_trials 16 102 @ [?abort])
          = FindAccessedAddrs_loop plain_lib [] 102 aa' ?gen [?abort] p'" and "errno p' = 0"
        by blast
      with abort [of p' aa'] have "?F (growing_trials 16 102 @ [?abort])
          = Returns (Inr (aa'\<lparr>code_location := code_address ?frame\<rparr>), [],
              p'\<lparr>calls := calls p' @ trial_calls @ [Call_kill 1000 SIGKILL, Call_waitpid 1000,
             Call_read 3 0 sizeof_PipedData, Call_close 3]\<rparr>)"
        by (simp add: after_trial_ok ok_OkStatus)
      with b show ?thesis by simp
    next
      case c
      from grow [of 102 "[]", OF le(1)] obtain aa' p' where
        "?F (growing_trials 16 102 @ [])
          = FindAccessedAddrs_loop plain_lib [] 102 aa' ?gen [] p'"
        by blast
      then have "?F (growing_trials 16 102) = No_return Blocked p'" by simp
      moreover from c [rule_format, of "[]"]
      have "?F (growing_trials 16 102)
          = Returns (res, drop (Suc k) (growing_trials 16 102), q')" by simp
      ultimately show ?thesis by simp
    qed
  qed
  have 2: "\<exists>aa p'. ?F (growing_trials 16 100 @ [?fpe, ?abort]) = Returns (Inr aa, [], p')
      \<and> accessed_blocks aa = []"
  proof -
    from grow [of 100 "[?fpe, ?abort]", OF le(2)] obtain aa' p' where
      g: "?F (growing_trials 16 100 @ [?fpe, ?abort])
          = FindAccessedAddrs_loop plain_lib [] 100 aa' ?gen [?fpe, ?abort] p'"
      and e: "errno p' = 0" and b: "accessed_blocks aa' = map page [16..<16 + 100]"
      by blast
    from b have ne: "accessed_blocks aa' \<noteq> []" by simp
    let ?q1 = "p'\<lparr>calls := calls p' @ trial_calls @ [Call_kill 1000 SIGKILL, Call_waitpid 1000]\<rparr>"
    let ?cleared = "aa'\<lparr>accessed_blocks := [],
        initial_regs := fst (RandomiseRegs ?gen (initial_regs aa'))\<rparr>"
    have s1: "FindAccessedAddrs_loop plain_lib [] 100 aa' ?gen [?fpe, ?abort] p'
        = FindAccessedAddrs_loop plain_lib [] 101 ?cleared
            (snd (RandomiseRegs ?gen (initial_regs aa'))) [?abort] ?q1"
      using main [where lib = plain_lib and t = ?fpe and bb = "[]" and aa = aa' and q = p'
          and n = 100 and gen = ?gen and ts = "[?abort]", THEN conjunct1, rule_format,
          OF fpe [of aa' p']] ne
      by simp
    have e1: "errno ?q1 = 0" using e by simp
    have s2: "FindAccessedAddrs_loop plain_lib [] 101 ?cleared
            (snd (RandomiseRegs ?gen (initial_regs aa'))) [?abort] ?q1
        = Returns (Inr (?cleared\<lparr>code_location := code_address ?frame\<rparr>), [],
            ?q1\<lparr>calls := calls ?q1 @ trial_calls @ [Call_kill 1000 SIGKILL, Call_waitpid 1000,
             Call_read 3 0 sizeof_PipedData, Call_close 3]\<rparr>)"
      using main [where lib = plain_lib and t = ?abort and bb = "[]" and aa = ?cleared
          and q = ?q1 and n = 101 and gen = "snd (RandomiseRegs ?gen (initial_regs aa'))"
          and ts = "[]", THEN conjunct1, rule_format, OF abort [of ?q1 ?cleared, OF e1]]
      by (simp add: ok_OkStatus)
    from g s1 s2 show ?thesis by simp
  qed
  have 3: "(101 :: nat) < length (growing_trials 16 102 @ [?fpe]) - length ([] :: trial list)"
  proof -
    from 1 obtain p' where run: "?F (growing_trials 16 102 @ [?fpe]) = Returns (Inl ?st, [], p')"
      by blast
    from main [where lib = plain_lib and pagesize = "0x1000" and seed = ?gen and bb = "[]"
        and trials = "growing_trials 16 102 @ [?fpe]" and p = fresh and st = ?st
        and rest = "[]" and p' = p', THEN conjunct2, THEN conjunct2] run
    show ?thesis by simp
  qed
  from 1 2 3 show ?thesis by blast
qed

section \<open>Calls issued by the child\<close>

lemma extends_refl [simp]: "extends p p"
  by (simp add: extends_def)

lemma extends_trans: "extends p q \<Longrightarrow> extends q r \<Longrightarrow> extends p r"
  by (auto simp add: extends_def)

lemma extends_issue [simp]: "extends p (issue e p)"
  by (simp add: extends_def)

lemma extends_errno [simp]: "extends p (q\<lparr>errno := e\<rparr>) = extends p q"
  by (simp add: extends_def)

lemma extends_after_call [simp]: "extends p (after_call r q) = extends p q"
  by (cases r) (simp_all add: after_call_def)

lemma calls_after_call [simp]: "calls (after_call r q) = calls q"
  by (cases r) (simp_all add: after_call_def)

lemma write_retry_extends:
  "(write_retry fd off n rs p = Returns (bw, err, rs', p') \<longrightarrow> extends p p')
   \<and> (write_retry fd off n rs p = No_return s q \<longrightarrow> extends p q)"
proof (induction rs arbitrary: p)
  case Nil
  show ?case by auto
next
  case (Cons r rs)
  let ?p2 = "case r of Done k \<Rightarrow> issue (Call_write fd off n) p
             | Fails e \<Rightarrow> (issue (Call_write fd off n) p)\<lparr>errno := e\<rparr>"
  have e2: "extends p ?p2" by (cases r) simp_all
  show ?case
  proof (cases "IsRetryable (errno ?p2)")
    case True
    then have "write_retry fd off n (r # rs) p = write_retry fd off n rs ?p2"
      by (simp add: Let_def)
    with Cons.IH [of ?p2] e2 show ?thesis
      by (auto intro: extends_trans)
  next
    case False
    then have "write_retry fd off n (r # rs) p
        = Returns (case r of Done k \<Rightarrow> int (min k n) | Fails e \<Rightarrow> - 1, errno ?p2, rs, ?p2)"
      by (simp add: Let_def)
    with e2 show ?thesis by auto
  qed
qed

lemma WriteAll_loop_extends:
  "(WriteAll_loop lib fd n off rs p = Returns (st, rs', p') \<longrightarrow> extends p p')
   \<and> (WriteAll_loop lib fd n off rs p = No_return s q \<longrightarrow> extends p q)"
proof (induction lib fd n off rs p rule: WriteAll_loop.induct)
  case (1 lib fd n off rs p)
  show ?case
  proof (cases "off < n")
    case False
    then show ?thesis by (auto simp add: WriteAll_loop.simps)
  next
    case True
    show ?thesis
    proof (cases "write_retry fd off (n - off) rs p")
      case (No_return s1 q1)
      with True write_retry_extends [of fd off "n - off" rs p _ _ _ _ s1 q1]
      show ?thesis by (subst WriteAll_loop.simps, subst (2) WriteAll_loop.simps) auto
    next
      case (Returns x)
      obtain bw err rs1 p1 where x: "x = (bw, err, rs1, p1)" by (cases x) auto
      from Returns x write_retry_extends [of fd off "n - off" rs p bw err rs1 p1]
      have e1: "extends p p1" by simp
      show ?thesis
      proof (cases "bw < 0")
        case neg: True
        with True Returns x e1 show ?thesis
          by (subst WriteAll_loop.simps, subst (2) WriteAll_loop.simps) auto
      next
        case False
        from "1.IH" [OF True Returns x [symmetric] refl refl False] e1
        have "(WriteAll_loop lib fd n (off + nat bw) rs1 p1 = Returns (st, rs', p') \<longrightarrow> extends p p')
          \<and> (WriteAll_loop lib fd n (off + nat bw) rs1 p1 = No_return s q \<longrightarrow> extends p q)"
          by (auto intro: extends_trans)
        with True Returns x False show ?thesis
          by (subst WriteAll_loop.simps, subst (2) WriteAll_loop.simps) simp
      qed
    qed
  qed
qed

lemma WriteAll_whole_frame:
  assumes "0 < length d" and "length d \<le> k" and "\<not> IsRetryable (errno p)"
  shows "WriteAll lib fd d (Done k # rs) p =
           Returns (OkStatus, rs, issue (Call_close fd) (issue (Call_write fd 0 (length d)) p))"
proof -
  have "WriteAll_loop lib fd (length d) 0 (Done k # rs) p =
      WriteAll_loop lib fd (length d) (length d) rs (issue (Call_write fd 0 (length d)) p)"
    by (subst WriteAll_loop.simps) (use assms in \<open>simp add: Let_def min_def\<close>)
  also have "\<dots> = Returns (OkStatus, rs,
      issue (Call_close fd) (issue (Call_write fd 0 (length d)) p))"
    by (subst WriteAll_loop.simps) simp
  finally show ?thesis by (simp add: WriteAll_def)
qed

lemma AbortChildProcess_result:
  "sent (AbortChildProcess lib fd status ws p) = Some (AbortChildProcess_piped_data status)
   \<and> extends p (final (AbortChildProcess lib fd status ws p))
   \<and> ending (AbortChildProcess lib fd status ws p) \<noteq> Enter_code"
proof (cases "WriteAll lib fd (AbortChildProcess_piped_data status) ws p")
  case (No_return s q)
  with WriteAll_loop_extends [of lib fd _ 0 ws p _ _ _ s q] show ?thesis
    by (simp add: AbortChildProcess_def WriteAll_def)
next
  case (Returns x)
  obtain st rs p1 where x: "x = (st, rs, p1)" by (cases x) auto
  from Returns x WriteAll_loop_extends [of lib fd _ 0 ws p st rs p1]
  have "extends p p1" by (simp add: WriteAll_def)
  then have "extends p (issue Call_abort p1)"
    by (rule extends_trans) simp
  with Returns x show ?thesis
    by (simp add: AbortChildProcess_def)
qed

lemma starts_issue: "extends (issue e p) q \<Longrightarrow> starts p e q"
  by (auto simp add: starts_def extends_def issue_def)

lemma starts_extends: "starts p e q \<Longrightarrow> extends q r \<Longrightarrow> starts p e r"
  by (auto simp add: starts_def extends_def)

lemma map_block_result:
  "(map_block lib env fd bsize loc i p = Inl r \<longrightarrow>
      failure_frame (sent r) \<and> ending r \<noteq> Enter_code
      \<and> starts p (Call_mmap loc (unat bsize) PROT_READ_WRITE) (final r))
   \<and> (map_block lib env fd bsize loc i p = Inr q \<longrightarrow>
      starts p (Call_mmap loc (unat bsize) PROT_READ_WRITE) q)"
proof -
  let ?p1 = "after_call (mmap_ret env i) (issue (Call_mmap loc (unat bsize) PROT_READ_WRITE) p)"
  have abort: "failure_frame (sent (AbortChildProcess lib fd st (writes env) ?p1))
      \<and> ending (AbortChildProcess lib fd st (writes env) ?p1) \<noteq> Enter_code
      \<and> starts p (Call_mmap loc (unat bsize) PROT_READ_WRITE)
          (final (AbortChildProcess lib fd st (writes env) ?p1))"
    if "(\<exists>m. st = InternalError m) \<or> (\<exists>m. st = InvalidArgumentError m)" for st
  proof -
    from AbortChildProcess_result [of lib fd st "writes env" ?p1]
    have s: "sent (AbortChildProcess lib fd st (writes env) ?p1)
          = Some (AbortChildProcess_piped_data st)"
      and e: "extends ?p1 (final (AbortChildProcess lib fd st (writes env) ?p1))"
      and n: "ending (AbortChildProcess lib fd st (writes env) ?p1) \<noteq> Enter_code"
      by simp_all
    from e have "starts p (Call_mmap loc (unat bsize) PROT_READ_WRITE)
          (final (AbortChildProcess lib fd st (writes env) ?p1))"
      by (auto simp add: starts_def extends_def)
    with s n that show ?thesis by (auto simp add: failure_frame_def)
  qed
  have cont: "starts p (Call_mmap loc (unat bsize) PROT_READ_WRITE) (issue e ?p1)" for e
    by (simp add: starts_def)
  let ?mapped = "case mmap_ret env i of Done a \<Rightarrow> a | Fails e \<Rightarrow> MAP_FAILED"
  show ?thesis
  proof (cases "?mapped = MAP_FAILED")
    case True
    then have "map_block lib env fd bsize loc i p = Inl (AbortChildProcess lib fd
        (InternalError (StrFormat lib ''mapping previously discovered address %p failed''
          [Arg_ptr loc])) (writes env) ?p1)"
      by (simp add: map_block_def Let_def)
    with abort [of "InternalError (StrFormat lib
        ''mapping previously discovered address %p failed'' [Arg_ptr loc])"]
    show ?thesis by auto
  next
    case False
    show ?thesis
    proof (cases "?mapped = loc")
      case moved: False
      with False have "map_block lib env fd bsize loc i p = Inl (AbortChildProcess lib fd
          (InvalidArgumentError (StrFormat lib
             (''tried to map previously discovered address %p, but mmap '' @
              ''couldn't map this address'' @ newline) [Arg_ptr loc])) (writes env) ?p1)"
        by (simp add: map_block_def Let_def)
      with abort [of "InvalidArgumentError (StrFormat lib
             (''tried to map previously discovered address %p, but mmap '' @
              ''couldn't map this address'' @ newline) [Arg_ptr loc])"]
      show ?thesis by auto
    next
      case True
      with False have "map_block lib env fd bsize loc i p = Inr (issue
          (Store loc (fill_block 0 (unat bsize) (replicate (unat bsize) 0))) ?p1)"
        by (simp add: map_block_def Let_def)
      with cont show ?thesis by auto
    qed
  qed
qed

lemma map_blocks_result:
  "(map_blocks lib env fd bsize locs i p = Inl r \<longrightarrow>
      failure_frame (sent r) \<and> ending r \<noteq> Enter_code \<and> extends p (final r)
      \<and> (\<exists>loc rest. locs = loc # rest
            \<and> starts p (Call_mmap loc (unat bsize) PROT_READ_WRITE) (final r)))
   \<and> (map_blocks lib env fd bsize locs i p = Inr (k, q) \<longrightarrow>
      extends p q
      \<and> (locs = [] \<longrightarrow> q = p)
      \<and> (\<forall>loc rest. locs = loc # rest \<longrightarrow>
            starts p (Call_mmap loc (unat bsize) PROT_READ_WRITE) q))"
proof (induction locs arbitrary: i p)
  case Nil
  show ?case by auto
next
  case (Cons loc rest)
  show ?case
  proof (cases "map_block lib env fd bsize loc i p")
    case (Inl r1)
    with map_block_result [of lib env fd bsize loc i p r1]
    show ?thesis by (auto simp add: starts_def extends_def)
  next
    case (Inr p2)
    with map_block_result [of lib env fd bsize loc i p _ p2]
    have st: "starts p (Call_mmap loc (unat bsize) PROT_READ_WRITE) p2" by simp
    then have ex: "extends p p2" by (auto simp add: starts_def extends_def)
    from Cons.IH [of "Suc i" p2]
    have ih: "(map_blocks lib env fd bsize rest (Suc i) p2 = Inl r \<longrightarrow>
        failure_frame (sent r) \<and> ending r \<noteq> Enter_code \<and> extends p2 (final r))
      \<and> (map_blocks lib env fd bsize rest (Suc i) p2 = Inr (k, q) \<longrightarrow> extends p2 q)"
      by blast
    with Inr st ex show ?thesis
      by (auto intro: extends_trans starts_extends)
  qed
qed

lemma ChildProcess_after_blocks:
  assumes "map_blocks lib env fd (block_size aa) (accessed_blocks aa) 0
             (stopped_and_unmapped env p) = Inr (i, p4)"
  shows "extends (issue (Call_mmap (desired_code_location aa) (total_block_size lib bb)
            PROT_WRITE_EXEC) p4) (final (ChildProcess lib env bb fd aa p))
       \<and> ((sent (ChildProcess lib env bb fd aa p) = None
             \<and> ending (ChildProcess lib env bb fd aa p) = Abort)
          \<or> (\<exists>a. sent (ChildProcess lib env bb fd aa p) = Some (ok_frame a)))"
proof -
  let ?p5 = "after_call (mmap_ret env i) (issue (Call_mmap (desired_code_location aa)
      (total_block_size lib bb) PROT_WRITE_EXEC) p4)"
  let ?mapped = "case mmap_ret env i of Done a \<Rightarrow> a | Fails e \<Rightarrow> MAP_FAILED"
  note defs = ChildProcess_def Let_def desired_code_location_def total_block_size_def
    stopped_and_unmapped_def [symmetric] ok_frame_def
  show ?thesis
  proof (cases "?mapped = MAP_FAILED")
    case True
    with assms have "ChildProcess lib env bb fd aa p
        = \<lparr>sent = None, ending = Abort, final = issue Call_abort (issue Call_perror ?p5)\<rparr>"
      by (simp add: defs)
    then show ?thesis
      by (simp add: extends_def)
  next
    case False
    show ?thesis
    proof (cases "WriteAll lib fd (ok_frame ?mapped) (writes env) ?p5")
      case (No_return s q)
      with False assms have c: "ChildProcess lib env bb fd aa p
          = \<lparr>sent = Some (ok_frame ?mapped), ending = Stuck, final = q\<rparr>"
        by (simp add: defs)
      from No_return WriteAll_loop_extends [of lib fd _ 0 "writes env" ?p5 _ _ _ s q]
      have "extends ?p5 q" by (simp add: WriteAll_def)
      with c show ?thesis by (auto simp add: extends_def)
    next
      case (Returns x)
      obtain st rs p6 where x: "x = (st, rs, p6)" by (cases x) auto
      from Returns x WriteAll_loop_extends [of lib fd _ 0 "writes env" ?p5 st rs p6]
      have e: "extends ?p5 p6" by (simp add: WriteAll_def)
      show ?thesis
      proof (cases "ok st")
        case nok: False
        with False assms Returns x have c: "ChildProcess lib env bb fd aa p
            = \<lparr>sent = Some (ok_frame ?mapped), ending = Abort, final = issue Call_abort p6\<rparr>"
          by (simp add: defs)
        with e show ?thesis by (auto simp add: extends_def)
      next
        case True
        with False assms Returns x have
          "sent (ChildProcess lib env bb fd aa p) = Some (ok_frame ?mapped)"
          "\<exists>zs. calls (final (ChildProcess lib env bb fd aa p)) = calls p6 @ zs"
          by (simp_all add: defs)
        with e show ?thesis by (auto simp add: extends_def)
      qed
    qed
  qed
qed

lemma ChildProcess_result:
  "(accessed_blocks aa = [] \<longrightarrow>
      starts (stopped_and_unmapped env p)
        (Call_mmap (desired_code_location aa) (total_block_size lib bb) PROT_WRITE_EXEC)
        (final (ChildProcess lib env bb fd aa p)))
   \<and> (\<forall>loc rest. accessed_blocks aa = loc # rest \<longrightarrow>
      starts (stopped_and_unmapped env p)
        (Call_mmap loc (unat (block_size aa)) PROT_READ_WRITE)
        (final (ChildProcess lib env bb fd aa p)))
   \<and> ((sent (ChildProcess lib env bb fd aa p) = None
         \<and> ending (ChildProcess lib env bb fd aa p) = Abort)
      \<or> (failure_frame (sent (ChildProcess lib env bb fd aa p))
         \<and> ending (ChildProcess lib env bb fd aa p) \<noteq> Enter_code)
      \<or> (\<exists>a. sent (ChildProcess lib env bb fd aa p) = Some (ok_frame a)))"
proof (cases "map_blocks lib env fd (block_size aa) (accessed_blocks aa) 0
    (stopped_and_unmapped env p)")
  case (Inl r)
  then have c: "ChildProcess lib env bb fd aa p = r"
    by (simp add: ChildProcess_def Let_def stopped_and_unmapped_def)
  from Inl map_blocks_result [of lib env fd "block_size aa" "accessed_blocks aa" 0
      "stopped_and_unmapped env p" r]
  show ?thesis unfolding c by auto
next
  case (Inr x)
  obtain i p4 where x: "x = (i, p4)" by (cases x) auto
  note mb = Inr [unfolded x]
  from ChildProcess_after_blocks [OF mb, of bb]
  have tail: "extends (issue (Call_mmap (desired_code_location aa) (total_block_size lib bb)
            PROT_WRITE_EXEC) p4) (final (ChildProcess lib env bb fd aa p))"
    and frames: "(sent (ChildProcess lib env bb fd aa p) = None
             \<and> ending (ChildProcess lib env bb fd aa p) = Abort)
          \<or> (\<exists>a. sent (ChildProcess lib env bb fd aa p) = Some (ok_frame a))"
    by simp_all
  from mb map_blocks_result [of lib env fd "block_size aa" "accessed_blocks aa" 0
      "stopped_and_unmapped env p" _ i p4]
  have e4: "extends (stopped_and_unmapped env p) p4"
    and nil: "accessed_blocks aa = [] \<longrightarrow> p4 = stopped_and_unmapped env p"
    and cons: "\<forall>loc rest. accessed_blocks aa = loc # rest \<longrightarrow>
            starts (stopped_and_unmapped env p)
              (Call_mmap loc (unat (block_size aa)) PROT_READ_WRITE) p4"
    by simp_all
  have ext: "extends p4 (final (ChildProcess lib env bb fd aa p))"
    using tail by (auto simp add: extends_def)
  have 1: "accessed_blocks aa = [] \<longrightarrow>
      starts (stopped_and_unmapped env p)
        (Call_mmap (desired_code_location aa) (total_block_size lib bb) PROT_WRITE_EXEC)
        (final (ChildProcess lib env bb fd aa p))"
    using nil tail by (auto intro: starts_issue)
  have 2: "\<forall>loc rest. accessed_blocks aa = loc # rest \<longrightarrow>
      starts (stopped_and_unmapped env p)
        (Call_mmap loc (unat (block_size aa)) PROT_READ_WRITE)
        (final (ChildProcess lib env bb fd aa p))"
    using cons ext by (auto intro: starts_extends)
  from 1 2 frames show ?thesis by blast
qed

lemma then_calls_simps:
  "errno (then_calls p evs) = errno p" "calls (then_calls p evs) = calls p @ evs"
  "then_calls p [] = p" "then_calls (then_calls p xs) ys = then_calls p (xs @ ys)"
  "then_calls (issue e p) ys = then_calls p (e # ys)"
  "issue e (then_calls p xs) = then_calls p (xs @ [e])"
  "then_calls (after_call r p) xs = after_call r (then_calls p xs)"
  "issue e (after_call r p) = after_call r (issue e p)"
  by (simp_all add: then_calls_def issue_def after_call_def split: sysret.splits)

lemma issue_then_calls: "issue e p = then_calls p [e]"
  by (simp add: then_calls_def issue_def)

lemma mmap_result_Done:
  "mmap_result env i = loc \<Longrightarrow> loc \<noteq> MAP_FAILED \<Longrightarrow> mmap_ret env i = Done loc"
  by (cases "mmap_ret env i") (auto simp add: mmap_result_def)

lemma map_block_mapped:
  assumes "mmap_result env i = loc" and "loc \<noteq> MAP_FAILED"
  shows "map_block lib env fd bsize loc i p = Inr (then_calls p (block_calls bsize loc))"
  using mmap_result_Done [OF assms] assms(2)
  by (simp add: map_block_def Let_def after_call_def block_calls_def then_calls_def issue_def)

lemma map_block_failed:
  assumes "mmap_result env i = MAP_FAILED \<or> mmap_result env i \<noteq> loc"
  shows "map_block lib env fd bsize loc i p =
           Inl (AbortChildProcess lib fd (block_failure lib env i loc) (writes env)
             (after_call (mmap_ret env i)
               (then_calls p [Call_mmap loc (unat bsize) PROT_READ_WRITE])))"
  using assms
  by (auto simp add: map_block_def Let_def block_failure_def mmap_result_def issue_then_calls)

lemma map_blocks_mapped:
  assumes "\<forall>j<length locs. mmap_result env (i + j) = locs ! j \<and> locs ! j \<noteq> MAP_FAILED"
  shows "map_blocks lib env fd bsize locs i p =
           Inr (i + length locs, then_calls p (concat (map (block_calls bsize) locs)))"
  using assms
proof (induction locs arbitrary: i p)
  case Nil
  then show ?case by (simp add: then_calls_simps)
next
  case (Cons loc rest)
  from Cons.prems [rule_format, of 0] have here: "mmap_result env i = loc" "loc \<noteq> MAP_FAILED"
    by simp_all
  have "\<forall>j<length rest. mmap_result env (Suc i + j) = rest ! j \<and> rest ! j \<noteq> MAP_FAILED"
  proof (intro allI impI)
    fix j assume "j < length rest"
    with Cons.prems [rule_format, of "Suc j"]
    show "mmap_result env (Suc i + j) = rest ! j \<and> rest ! j \<noteq> MAP_FAILED" by simp
  qed
  from Cons.IH [OF this] map_block_mapped [OF here]
  show ?case by (simp add: then_calls_simps block_calls_def)
qed

lemma map_blocks_append:
  "map_blocks lib env fd bsize (xs @ ys) i p =
     (case map_blocks lib env fd bsize xs i p of
        Inl r \<Rightarrow> Inl r
      | Inr (k, q) \<Rightarrow> map_blocks lib env fd bsize ys k q)"
  by (induction xs arbitrary: i p) (simp_all split: sum.splits)

lemma blocks_mapped_nth:
  "blocks_mapped env locs \<Longrightarrow> j < length locs \<Longrightarrow>
     mmap_result env j = locs ! j \<and> locs ! j \<noteq> MAP_FAILED"
  by (simp add: blocks_mapped_def)

lemma map_blocks_first_failure:
  assumes k: "k < length locs" and before: "blocks_mapped env (take k locs)"
    and failed: "mmap_result env k = MAP_FAILED \<or> mmap_result env k \<noteq> locs ! k"
  shows "map_blocks lib env fd bsize locs 0 p =
           Inl (AbortChildProcess lib fd (block_failure lib env k (locs ! k)) (writes env)
             (after_call (mmap_ret env k)
               (then_calls p (concat (map (block_calls bsize) (take k locs))
                  @ [Call_mmap (locs ! k) (unat bsize) PROT_READ_WRITE]))))"
proof -
  have split: "locs = take k locs @ locs ! k # drop (Suc k) locs"
    using k by (simp add: id_take_nth_drop)
  have "\<forall>j<length (take k locs). mmap_result env (0 + j) = take k locs ! j
      \<and> take k locs ! j \<noteq> MAP_FAILED"
    using blocks_mapped_nth [OF before] by simp
  from map_blocks_mapped [OF this, of lib fd bsize p] k
  have pre: "map_blocks lib env fd bsize (take k locs) 0 p =
      Inr (k, then_calls p (concat (map (block_calls bsize) (take k locs))))"
    by simp
  have "map_blocks lib env fd bsize (take k locs @ locs ! k # drop (Suc k) locs) 0 p =
      Inl (AbortChildProcess lib fd (block_failure lib env k (locs ! k)) (writes env)
        (after_call (mmap_ret env k)
          (then_calls p (concat (map (block_calls bsize) (take k locs))
             @ [Call_mmap (locs ! k) (unat bsize) PROT_READ_WRITE]))))"
    by (simp add: map_blocks_append pre map_block_failed [OF failed] then_calls_simps)
  with split show ?thesis by simp
qed

lemma map_blocks_all:
  assumes "blocks_mapped env locs"
  shows "map_blocks lib env fd bsize locs 0 p =
           Inr (length locs, then_calls p (concat (map (block_calls bsize) locs)))"
  using map_blocks_mapped [of locs env 0 lib fd bsize p] blocks_mapped_nth [OF assms]
  by simp

lemma write_retry_starts:
  "(write_retry fd off n rs p = Returns (bw, err, rs', p') \<longrightarrow> starts p (Call_write fd off n) p')
   \<and> (write_retry fd off n rs p = No_return s q \<longrightarrow> starts p (Call_write fd off n) q)"
proof (cases rs)
  case Nil
  then show ?thesis by (auto simp add: starts_def)
next
  case (Cons r rest)
  let ?p2 = "case r of Done k \<Rightarrow> issue (Call_write fd off n) p
             | Fails e \<Rightarrow> (issue (Call_write fd off n) p)\<lparr>errno := e\<rparr>"
  have s2: "starts p (Call_write fd off n) ?p2"
    by (cases r) (simp_all add: starts_def)
  show ?thesis
  proof (cases "IsRetryable (errno ?p2)")
    case True
    then have "write_retry fd off n rs p = write_retry fd off n rest ?p2"
      using Cons by (simp add: Let_def)
    with write_retry_extends [of fd off n rest ?p2 bw err rs' p' s q] s2
    show ?thesis by (auto intro: starts_extends)
  next
    case False
    then have "write_retry fd off n rs p
        = Returns (case r of Done k \<Rightarrow> int (min k n) | Fails e \<Rightarrow> - 1, errno ?p2, rest, ?p2)"
      using Cons by (simp add: Let_def)
    with s2 show ?thesis by auto
  qed
qed

lemma WriteAll_loop_starts:
  assumes "off < n"
  shows "(WriteAll_loop lib fd n off rs p = Returns (st, rs', p')
            \<longrightarrow> starts p (Call_write fd off (n - off)) p')
       \<and> (WriteAll_loop lib fd n off rs p = No_return s q
            \<longrightarrow> starts p (Call_write fd off (n - off)) q)"
proof (cases "write_retry fd off (n - off) rs p")
  case (No_return s1 q1)
  with assms write_retry_starts [of fd off "n - off" rs p _ _ _ _ s1 q1]
  show ?thesis by (subst WriteAll_loop.simps, subst (2) WriteAll_loop.simps) auto
next
  case (Returns x)
  obtain bw err rs1 p1 where x: "x = (bw, err, rs1, p1)" by (cases x) auto
  from Returns x write_retry_starts [of fd off "n - off" rs p bw err rs1 p1]
  have s1: "starts p (Call_write fd off (n - off)) p1" by simp
  show ?thesis
  proof (cases "bw < 0")
    case True
    with assms Returns x s1 show ?thesis
      by (subst WriteAll_loop.simps, subst (2) WriteAll_loop.simps) auto
  next
    case False
    from WriteAll_loop_extends [of lib fd n "off + nat bw" rs1 p1 st rs' p' s q] s1
    have "(WriteAll_loop lib fd n (off + nat bw) rs1 p1 = Returns (st, rs', p')
            \<longrightarrow> starts p (Call_write fd off (n - off)) p')
       \<and> (WriteAll_loop lib fd n (off + nat bw) rs1 p1 = No_return s q
            \<longrightarrow> starts p (Call_write fd off (n - off)) q)"
      by (auto intro: starts_extends)
    with assms Returns x False show ?thesis
      by (subst WriteAll_loop.simps, subst (2) WriteAll_loop.simps) simp
  qed
qed

lemma AbortChildProcess_run:
  "sent (AbortChildProcess lib fd status ws q) = Some (AbortChildProcess_piped_data status)
   \<and> ending (AbortChildProcess lib fd status ws q) \<noteq> Enter_code
   \<and> starts q (Call_write fd 0 sizeof_PipedData) (final (AbortChildProcess lib fd status ws q))
   \<and> (WriteAll lib fd (AbortChildProcess_piped_data status) ws q = Returns (st, rs, q') \<longrightarrow>
        AbortChildProcess lib fd status ws q
          = \<lparr>sent = Some (AbortChildProcess_piped_data status), ending = Abort,
             final = issue Call_abort q'\<rparr>)"
proof -
  let ?f = "AbortChildProcess_piped_data status"
  have len: "length ?f = sizeof_PipedData"
    using piped_data_frame [of status] by simp
  have pos: "0 < sizeof_PipedData" by (simp add: sizeof_PipedData_def)
  show ?thesis
  proof (cases "WriteAll lib fd ?f ws q")
    case (No_return s q1)
    with WriteAll_loop_starts [OF pos, of lib fd ws q _ _ _ s q1] show ?thesis
      by (simp add: AbortChildProcess_def WriteAll_def len)
  next
    case (Returns x)
    obtain st1 rs1 q1 where x: "x = (st1, rs1, q1)" by (cases x) auto
    from Returns x WriteAll_loop_starts [OF pos, of lib fd ws q st1 rs1 q1]
    have "starts q (Call_write fd 0 sizeof_PipedData) q1"
      by (simp add: WriteAll_def len)
    then have "starts q (Call_write fd 0 sizeof_PipedData) (issue Call_abort q1)"
      by (rule starts_extends) simp
    with Returns x show ?thesis
      by (simp add: AbortChildProcess_def)
  qed
qed

lemma ChildProcess_block_failure:
  assumes "k < length (accessed_blocks aa)"
    and "blocks_mapped env (take k (accessed_blocks aa))"
    and "mmap_result env k = MAP_FAILED \<or> mmap_result env k \<noteq> accessed_blocks aa ! k"
  shows "ChildProcess lib env bb fd aa p =
           AbortChildProcess lib fd (block_failure lib env k (accessed_blocks aa ! k))
             (writes env)
             (after_call (mmap_ret env k)
               (then_calls (stopped_and_unmapped env p)
                 (concat (map (block_calls (block_size aa)) (take k (accessed_blocks aa)))
                    @ [Call_mmap (accessed_blocks aa ! k) (unat (block_size aa))
                         PROT_READ_WRITE])))"
  using map_blocks_first_failure [OF assms, of lib fd "block_size aa" "stopped_and_unmapped env p"]
  by (simp add: ChildProcess_def Let_def stopped_and_unmapped_def)

lemma ChildProcess_code_failure:
  assumes "blocks_mapped env (accessed_blocks aa)"
    and "mmap_result env (length (accessed_blocks aa)) = MAP_FAILED"
  shows "ChildProcess lib env bb fd aa p =
           \<lparr>sent = None, ending = Abort,
            final = then_calls
              (after_call (mmap_ret env (length (accessed_blocks aa)))
                (then_calls (stopped_and_unmapped env p)
                  (concat (map (block_calls (block_size aa)) (accessed_blocks aa))
                     @ [Call_mmap (desired_code_location aa) (total_block_size lib bb)
                          PROT_WRITE_EXEC])))
              [Call_perror, Call_abort]\<rparr>"
proof -
  let ?n = "length (accessed_blocks aa)"
  let ?p4 = "then_calls (stopped_and_unmapped env p)
      (concat (map (block_calls (block_size aa)) (accessed_blocks aa)))"
  from map_blocks_all [OF assms(1), of lib fd "block_size aa" "stopped_and_unmapped env p"]
  have mb: "map_blocks lib env fd (block_size aa) (accessed_blocks aa) 0
      (stopped_and_unmapped env p) = Inr (?n, ?p4)" .
  have "ChildProcess lib env bb fd aa p =
      \<lparr>sent = None, ending = Abort,
       final = issue Call_abort (issue Call_perror (after_call (mmap_ret env ?n)
         (issue (Call_mmap (desired_code_location aa) (total_block_size lib bb)
            PROT_WRITE_EXEC) ?p4)))\<rparr>"
    using assms(2)
    by (simp add: ChildProcess_def Let_def stopped_and_unmapped_def [symmetric] mb
          desired_code_location_def total_block_size_def mmap_result_def)
  then show ?thesis
    by (simp add: then_calls_simps issue_then_calls)
qed

lemma ChildProcess_frame_sent:
  assumes "blocks_mapped env (accessed_blocks aa)"
    and "mmap_result env (length (accessed_blocks aa)) = a" and "a \<noteq> MAP_FAILED"
  shows "sent (ChildProcess lib env bb fd aa p) = Some (ok_frame a)"
  using map_blocks_all [OF assms(1), of lib fd "block_size aa" "stopped_and_unmapped env p"]
    assms(2,3)
  by (simp add: ChildProcess_def Let_def stopped_and_unmapped_def [symmetric]
        mmap_result_def ok_frame_def split: run.splits prod.splits)

lemma ChildProcess_enters_code:
  assumes "blocks_mapped env (accessed_blocks aa)"
    and "mmap_result env (length (accessed_blocks aa)) = a" and "a \<noteq> MAP_FAILED"
    and "writes env = Done k # rs" and "sizeof_PipedData \<le> k"
    and "\<not> IsRetryable (errno (after_call (munmap_ret env) p))"
  shows "ChildProcess lib env bb fd aa p =
           \<lparr>sent = Some (ok_frame a), ending = Enter_code,
            final = then_calls (stopped_and_unmapped env p)
              (concat (map (block_calls (block_size aa)) (accessed_blocks aa))
                 @ [Call_mmap (desired_code_location aa) (total_block_size lib bb)
                      PROT_WRITE_EXEC,
                    Call_write fd 0 sizeof_PipedData, Call_close fd,
                    Store a (GetGematriaBeforeBlockCode lib),
                    Store (a + of_nat (length (GetGematriaBeforeBlockCode lib))) bb,
                    Store (a + of_nat (length (GetGematriaBeforeBlockCode lib))
                             + of_nat (length bb)) (GetGematriaAfterBlockCode lib),
                    Call_code a])\<rparr>"
proof -
  let ?n = "length (accessed_blocks aa)"
  let ?p4 = "then_calls (stopped_and_unmapped env p)
      (concat (map (block_calls (block_size aa)) (accessed_blocks aa)))"
  let ?p5 = "issue (Call_mmap (desired_code_location aa) (total_block_size lib bb)
      PROT_WRITE_EXEC) ?p4"
  have mapped: "mmap_ret env ?n = Done a"
    by (rule mmap_result_Done [OF assms(2,3)])
  have ac: "after_call (mmap_ret env ?n) x = x" for x
    by (simp add: mapped after_call_def)
  have e5: "errno ?p5 = errno (after_call (munmap_ret env) p)"
    by (cases "munmap_ret env")
       (simp_all add: stopped_and_unmapped_def after_call_def then_calls_simps)
  have w: "WriteAll lib fd (ok_frame a) (writes env) ?p5 =
      Returns (OkStatus, rs, issue (Call_close fd) (issue (Call_write fd 0 sizeof_PipedData) ?p5))"
    using WriteAll_whole_frame [of "ok_frame a" k ?p5 lib fd rs] assms(4-6) e5
    by (simp add: ok_frame_fields(1) sizeof_PipedData_def)
  from map_blocks_all [OF assms(1), of lib fd "block_size aa" "stopped_and_unmapped env p"]
  have mb: "map_blocks lib env fd (block_size aa) (accessed_blocks aa) 0
      (stopped_and_unmapped env p) = Inr (?n, ?p4)" .
  have "ChildProcess lib env bb fd aa p =
      \<lparr>sent = Some (ok_frame a), ending = Enter_code,
       final = issue (Call_code a)
         (issue (Store (a + of_nat (length (GetGematriaBeforeBlockCode lib))
                   + of_nat (length bb)) (GetGematriaAfterBlockCode lib))
         (issue (Store (a + of_nat (length (GetGematriaBeforeBlockCode lib))) bb)
         (issue (Store a (GetGematriaBeforeBlockCode lib))
         (issue (Call_close fd) (issue (Call_write fd 0 sizeof_PipedData) ?p5)))))\<rparr>"
    using assms(3) w ac
    by (simp add: ChildProcess_def Let_def stopped_and_unmapped_def [symmetric] mb mapped
          desired_code_location_def total_block_size_def ok_frame_def ok_OkStatus)
  then show ?thesis
    by (simp add: then_calls_simps issue_then_calls)
qed

lemma map_block_munmap_ret:
  "map_block lib (env\<lparr>munmap_ret := r\<rparr>) fd bsize loc i p = map_block lib env fd bsize loc i p"
  by (simp add: map_block_def Let_def)

lemma map_blocks_munmap_ret:
  "map_blocks lib (env\<lparr>munmap_ret := r\<rparr>) fd bsize locs i p = map_blocks lib env fd bsize locs i p"
  by (induction locs arbitrary: i p) (simp_all add: map_block_munmap_ret split: sum.splits)

lemma ChildProcess_munmap_failed:
  "ChildProcess lib (env\<lparr>munmap_ret := Fails e\<rparr>) bb fd aa p
     = ChildProcess lib (env\<lparr>munmap_ret := Done ()\<rparr>) bb fd aa (p\<lparr>errno := e\<rparr>)"
proof -
  have eq: "after_call (munmap_ret (env\<lparr>munmap_ret := Fails e\<rparr>))
          (issue (Call_munmap 0x800000000 0x10000)
            (issue (Call_raise SIGSTOP) (issue (Call_ptrace PTRACE_TRACEME 0) p)))
      = after_call (munmap_ret (env\<lparr>munmap_ret := Done ()\<rparr>))
          (issue (Call_munmap 0x800000000 0x10000)
            (issue (Call_raise SIGSTOP)
              (issue (Call_ptrace PTRACE_TRACEME 0) (p\<lparr>errno := e\<rparr>))))"
    by (simp add: after_call_def issue_def)
  show ?thesis
    unfolding ChildProcess_def Let_def eq
    by (simp add: map_blocks_munmap_ret
          cong: sum.case_cong prod.case_cong if_cong run.case_cong)
qed

lemma alike_refl: "alike p p"
  by (simp add: alike_def)

lemma alike_issue: "alike p q \<Longrightarrow> alike (issue e p) (issue e q)"
  by (simp add: alike_def)

lemma alike_errno: "alike p q \<Longrightarrow> alike (p\<lparr>errno := e\<rparr>) (q\<lparr>errno := e\<rparr>)"
  by (simp add: alike_def)

lemma alike_after_call: "alike p q \<Longrightarrow> alike (after_call r p) (after_call r q)"
  by (cases r) (simp_all add: after_call_def alike_def)

lemma write_retry_alike:
  "alike p q \<Longrightarrow>
     (write_retry fd off n rs p = Returns (bw, err, rs1, p1) \<longrightarrow>
        (\<exists>err' q1. write_retry fd off n rs q = Returns (bw, err', rs1, q1) \<and> alike p1 q1
           \<and> (bw < 0 \<longrightarrow> err' = err)))
     \<and> (write_retry fd off n rs p = No_return s p1 \<longrightarrow>
        (\<exists>q1. write_retry fd off n rs q = No_return s q1 \<and> alike p1 q1))"
proof (induction rs arbitrary: p q)
  case Nil
  then show ?case by (auto intro: alike_issue)
next
  case (Cons r rs)
  let ?p2 = "case r of Done k \<Rightarrow> issue (Call_write fd off n) p
             | Fails e \<Rightarrow> (issue (Call_write fd off n) p)\<lparr>errno := e\<rparr>"
  let ?q2 = "case r of Done k \<Rightarrow> issue (Call_write fd off n) q
             | Fails e \<Rightarrow> (issue (Call_write fd off n) q)\<lparr>errno := e\<rparr>"
  have a2: "alike ?p2 ?q2"
    using Cons.prems by (cases r) (auto intro: alike_issue alike_errno)
  then have same: "IsRetryable (errno ?p2) = IsRetryable (errno ?q2)"
    by (simp add: alike_def)
  have fails: "errno ?q2 = errno ?p2" if "r = Fails e" for e
    using that by simp
  show ?case
  proof (cases "IsRetryable (errno ?p2)")
    case True
    with same have "write_retry fd off n (r # rs) p = write_retry fd off n rs ?p2"
      "write_retry fd off n (r # rs) q = write_retry fd off n rs ?q2"
      by (simp_all add: Let_def)
    with Cons.IH [OF a2] show ?thesis by simp
  next
    case False
    with same have
      "write_retry fd off n (r # rs) p
        = Returns (case r of Done k \<Rightarrow> int (min k n) | Fails e \<Rightarrow> - 1, errno ?p2, rs, ?p2)"
      "write_retry fd off n (r # rs) q
        = Returns (case r of Done k \<Rightarrow> int (min k n) | Fails e \<Rightarrow> - 1, errno ?q2, rs, ?q2)"
      by (simp_all add: Let_def)
    with a2 show ?thesis by (cases r) auto
  qed
qed

lemma WriteAll_loop_alike:
  "alike p q \<Longrightarrow>
     (WriteAll_loop lib fd n off rs p = Returns (st, rs1, p1) \<longrightarrow>
        (\<exists>q1. WriteAll_loop lib fd n off rs q = Returns (st, rs1, q1) \<and> alike p1 q1))
     \<and> (WriteAll_loop lib fd n off rs p = No_return s p1 \<longrightarrow>
        (\<exists>q1. WriteAll_loop lib fd n off rs q = No_return s q1 \<and> alike p1 q1))"
proof (induction lib fd n off rs p arbitrary: q rule: WriteAll_loop.induct)
  case (1 lib fd n off rs p)
  show ?case
  proof (cases "off < n")
    case False
    with "1.prems" show ?thesis
      by (subst WriteAll_loop.simps, subst (2) WriteAll_loop.simps,
          subst (3) WriteAll_loop.simps, subst (4) WriteAll_loop.simps)
         (auto intro: alike_issue)
  next
    case True
    show ?thesis
    proof (cases "write_retry fd off (n - off) rs p")
      case (No_return s2 p2)
      with write_retry_alike [OF "1.prems", where fd = fd and off = off and n = "n - off"
          and rs = rs and s = s2 and ?p1.0 = p2]
      obtain q2 where "write_retry fd off (n - off) rs q = No_return s2 q2" "alike p2 q2"
        by auto
      with True No_return show ?thesis
        by (subst WriteAll_loop.simps, subst (2) WriteAll_loop.simps,
            subst (3) WriteAll_loop.simps, subst (4) WriteAll_loop.simps) auto
    next
      case (Returns x)
      obtain bw err rs2 p2 where x: "x = (bw, err, rs2, p2)" by (cases x) auto
      from Returns x write_retry_alike [OF "1.prems", where fd = fd and off = off
          and n = "n - off" and rs = rs and bw = bw and err = err and ?rs1.0 = rs2 and ?p1.0 = p2]
      obtain err' q2 where q: "write_retry fd off (n - off) rs q = Returns (bw, err', rs2, q2)"
        "alike p2 q2" "bw < 0 \<longrightarrow> err' = err"
        by auto
      show ?thesis
      proof (cases "bw < 0")
        case neg: True
        with True Returns x q show ?thesis
          by (subst WriteAll_loop.simps, subst (2) WriteAll_loop.simps,
              subst (3) WriteAll_loop.simps, subst (4) WriteAll_loop.simps) auto
      next
        case False
        from "1.IH" [OF True Returns x [symmetric] refl refl False q(2)]
        have "(WriteAll_loop lib fd n (off + nat bw) rs2 p2 = Returns (st, rs1, p1) \<longrightarrow>
            (\<exists>q1. WriteAll_loop lib fd n (off + nat bw) rs2 q2 = Returns (st, rs1, q1)
               \<and> alike p1 q1))
          \<and> (WriteAll_loop lib fd n (off + nat bw) rs2 p2 = No_return s p1 \<longrightarrow>
            (\<exists>q1. WriteAll_loop lib fd n (off + nat bw) rs2 q2 = No_return s q1
               \<and> alike p1 q1))" .
        with True Returns x q False show ?thesis
          by (subst WriteAll_loop.simps, subst (2) WriteAll_loop.simps,
              subst (3) WriteAll_loop.simps, subst (4) WriteAll_loop.simps) simp
      qed
    qed
  qed
qed

lemma WriteAll_alike:
  assumes "alike p q"
  shows "(case WriteAll lib fd d ws p of
            Returns (st, rs1, p1) \<Rightarrow>
              (\<exists>q1. WriteAll lib fd d ws q = Returns (st, rs1, q1) \<and> alike p1 q1)
          | No_return s p1 \<Rightarrow>
              (\<exists>q1. WriteAll lib fd d ws q = No_return s q1 \<and> alike p1 q1))"
proof (cases "WriteAll lib fd d ws p")
  case (Returns x)
  obtain st rs1 p1 where x: "x = (st, rs1, p1)" by (cases x) auto
  with Returns WriteAll_loop_alike [OF assms, where lib = lib and fd = fd and n = "length d"
      and off = 0 and rs = ws and st = st and ?rs1.0 = rs1 and ?p1.0 = p1]
  show ?thesis by (simp add: WriteAll_def)
next
  case (No_return s p1)
  with WriteAll_loop_alike [OF assms, where lib = lib and fd = fd and n = "length d"
      and off = 0 and rs = ws and s = s and ?p1.0 = p1]
  show ?thesis by (simp add: WriteAll_def)
qed

lemma AbortChildProcess_alike:
  assumes "alike p q"
  shows "same_run (AbortChildProcess lib fd status ws p) (AbortChildProcess lib fd status ws q)"
proof (cases "WriteAll lib fd (AbortChildProcess_piped_data status) ws p")
  case (Returns x)
  obtain st rs1 p1 where x: "x = (st, rs1, p1)" by (cases x) auto
  from Returns x WriteAll_alike [OF assms, of lib fd "AbortChildProcess_piped_data status" ws]
  obtain q1 where "WriteAll lib fd (AbortChildProcess_piped_data status) ws q
      = Returns (st, rs1, q1)" "alike p1 q1"
    by auto
  with Returns x show ?thesis
    by (simp add: AbortChildProcess_def same_run_def alike_issue)
next
  case (No_return s p1)
  with WriteAll_alike [OF assms, of lib fd "AbortChildProcess_piped_data status" ws]
  obtain q1 where "WriteAll lib fd (AbortChildProcess_piped_data status) ws q
      = No_return s q1" "alike p1 q1"
    by auto
  with No_return show ?thesis
    by (simp add: AbortChildProcess_def same_run_def)
qed

lemma map_block_alike:
  assumes "alike p q"
  shows "(case map_block lib env fd bsize loc i p of
            Inl r \<Rightarrow> (\<exists>r'. map_block lib env fd bsize loc i q = Inl r' \<and> same_run r r')
          | Inr p1 \<Rightarrow> (\<exists>q1. map_block lib env fd bsize loc i q = Inr q1 \<and> alike p1 q1))"
proof -
  have a1: "alike (after_call (mmap_ret env i) (issue (Call_mmap loc (unat bsize) PROT_READ_WRITE) p))
      (after_call (mmap_ret env i) (issue (Call_mmap loc (unat bsize) PROT_READ_WRITE) q))"
    using assms by (intro alike_after_call alike_issue)
  from AbortChildProcess_alike [OF a1] alike_issue [OF a1] show ?thesis
    by (simp add: map_block_def Let_def)
qed

lemma map_blocks_alike:
  "alike p q \<Longrightarrow>
     (case map_blocks lib env fd bsize locs i p of
        Inl r \<Rightarrow> (\<exists>r'. map_blocks lib env fd bsize locs i q = Inl r' \<and> same_run r r')
      | Inr (k, p1) \<Rightarrow> (\<exists>q1. map_blocks lib env fd bsize locs i q = Inr (k, q1) \<and> alike p1 q1))"
proof (induction locs arbitrary: i p q)
  case Nil
  then show ?case by simp
next
  case (Cons loc rest)
  show ?case
  proof (cases "map_block lib env fd bsize loc i p")
    case (Inl r)
    with map_block_alike [OF Cons.prems, of lib env fd bsize loc i] show ?thesis
      by auto
  next
    case (Inr p1)
    with map_block_alike [OF Cons.prems, of lib env fd bsize loc i] obtain q1 where
      q: "map_block lib env fd bsize loc i q = Inr q1" "alike p1 q1"
      by auto
    from Cons.IH [OF q(2), of "Suc i"] Inr q(1) show ?thesis
      by (simp split: sum.splits prod.splits)
  qed
qed

lemma ChildProcess_alike:
  assumes "alike p q"
  shows "same_run (ChildProcess lib env bb fd aa p) (ChildProcess lib env bb fd aa q)"
proof -
  have a3: "alike (stopped_and_unmapped env p) (stopped_and_unmapped env q)"
    using assms unfolding stopped_and_unmapped_def
    by (intro alike_after_call alike_issue)
  show ?thesis
  proof (cases "map_blocks lib env fd (block_size aa) (accessed_blocks aa) 0
      (stopped_and_unmapped env p)")
    case (Inl r)
    with map_blocks_alike [OF a3, of lib env fd "block_size aa" "accessed_blocks aa" 0]
    obtain r' where "map_blocks lib env fd (block_size aa) (accessed_blocks aa) 0
      (stopped_and_unmapped env q) = Inl r'" "same_run r r'"
      by auto
    with Inl show ?thesis
      by (simp add: ChildProcess_def Let_def stopped_and_unmapped_def)
  next
    case (Inr x)
    obtain k p4 where x: "x = (k, p4)" by (cases x) auto
    from Inr x map_blocks_alike [OF a3, of lib env fd "block_size aa" "accessed_blocks aa" 0]
    obtain q4 where q4: "map_blocks lib env fd (block_size aa) (accessed_blocks aa) 0
      (stopped_and_unmapped env q) = Inr (k, q4)" "alike p4 q4"
      by auto
    let ?e = "Call_mmap (desired_code_location aa) (total_block_size lib bb) PROT_WRITE_EXEC"
    let ?p5 = "after_call (mmap_ret env k) (issue ?e p4)"
    let ?q5 = "after_call (mmap_ret env k) (issue ?e q4)"
    have a5: "alike ?p5 ?q5"
      using q4(2) by (intro alike_after_call alike_issue)
    note defs = ChildProcess_def Let_def desired_code_location_def total_block_size_def
      stopped_and_unmapped_def [symmetric]
    show ?thesis
    proof (cases "mmap_result env k = MAP_FAILED")
      case True
      with Inr x q4 a5 show ?thesis
        by (simp add: defs mmap_result_def same_run_def alike_issue)
    next
      case False
      let ?f = "ok_frame (mmap_result env k)"
      have c: "ChildProcess lib env bb fd aa r =
          (case WriteAll lib fd ?f (writes env) (after_call (mmap_ret env k) (issue ?e r4)) of
             No_return s r6 \<Rightarrow> \<lparr>sent = Some ?f, ending = Stuck, final = r6\<rparr>
           | Returns (status, rs, r6) \<Rightarrow>
               if \<not> ok status
               then \<lparr>sent = Some ?f, ending = Abort, final = issue Call_abort r6\<rparr>
               else \<lparr>sent = Some ?f, ending = Enter_code,
                      final = issue (Call_code (mmap_result env k))
                        (issue (Store (mmap_result env k
                             + of_nat (length (GetGematriaBeforeBlockCode lib))
                             + of_nat (length bb)) (GetGematriaAfterBlockCode lib))
                        (issue (Store (mmap_result env k
                             + of_nat (length (GetGematriaBeforeBlockCode lib))) bb)
                        (issue (Store (mmap_result env k) (GetGematriaBeforeBlockCode lib))
                           r6)))\<rparr>)"
        if "map_blocks lib env fd (block_size aa) (accessed_blocks aa) 0
            (stopped_and_unmapped env r) = Inr (k, r4)" for r r4
        using that False
        by (simp add: defs mmap_result_def ok_frame_def
              cong: run.case_cong prod.case_cong if_cong)
      show ?thesis
      proof (cases "WriteAll lib fd ?f (writes env) ?p5")
        case (Returns y)
        obtain st rs1 p6 where y: "y = (st, rs1, p6)" by (cases y) auto
        from Returns y WriteAll_alike [OF a5, of lib fd ?f "writes env"]
        obtain q6 where "WriteAll lib fd ?f (writes env) ?q5 = Returns (st, rs1, q6)"
          "alike p6 q6"
          by auto
        with Returns y show ?thesis
          unfolding c [OF Inr [unfolded x]] c [OF q4(1)]
          by (simp add: same_run_def alike_issue)
      next
        case (No_return s p6)
        with WriteAll_alike [OF a5, of lib fd ?f "writes env"]
        obtain q6 where "WriteAll lib fd ?f (writes env) ?q5 = No_return s q6" "alike p6 q6"
          by auto
        with No_return show ?thesis
          unfolding c [OF Inr [unfolded x]] c [OF q4(1)]
          by (simp add: same_run_def)
      qed
    qed
  qed
qed

lemma ChildProcess_munmap_result:
  assumes "IsRetryable e = IsRetryable (errno p)"
  shows "same_run (ChildProcess lib (env\<lparr>munmap_ret := Fails e\<rparr>) bb fd aa p)
           (ChildProcess lib (env\<lparr>munmap_ret := Done ()\<rparr>) bb fd aa p)"
proof -
  have "alike (p\<lparr>errno := e\<rparr>) p"
    using assms by (simp add: alike_def)
  from ChildProcess_alike [OF this] show ?thesis
    by (simp add: ChildProcess_munmap_failed)
qed

lemma length_fill_block: "length (fill_block i n b) = length b"
proof (induction i n b rule: fill_block.induct)
  case (1 i n block)
  then show ?case by (subst fill_block.simps) simp
qed

lemma fill_block_nth:
  "length b = n \<Longrightarrow> j < n \<Longrightarrow>
     fill_block i n b ! j = (if i \<le> j \<and> 4 dvd (j - i) then 8 else b ! j)"
proof (induction i n b rule: fill_block.induct)
  case (1 i n block)
  show ?case
  proof (cases "i < n")
    case False
    with "1.prems" show ?thesis by (subst fill_block.simps) simp
  next
    case True
    have iff: "(i \<le> j \<and> 4 dvd (j - i)) \<longleftrightarrow> (j = i \<or> (i + 4 \<le> j \<and> 4 dvd (j - (i + 4))))"
      by presburger
    from "1.IH" [OF True] "1.prems"
    have "fill_block (i + 4) n (block[i := 8]) ! j
        = (if i + 4 \<le> j \<and> 4 dvd (j - (i + 4)) then 8 else block[i := 8] ! j)"
      by simp
    with True "1.prems" iff show ?thesis
      by (subst fill_block.simps) (auto simp add: nth_list_update)
  qed
qed

lemma take_8_drop:
  assumes "m + 8 \<le> length xs"
  shows "take 8 (drop m xs) = [xs ! m, xs ! (m + 1), xs ! (m + 2), xs ! (m + 3),
           xs ! (m + 4), xs ! (m + 5), xs ! (m + 6), xs ! (m + 7)]"
proof (rule nth_equalityI)
  show "length (take 8 (drop m xs)) = length [xs ! m, xs ! (m + 1), xs ! (m + 2), xs ! (m + 3),
           xs ! (m + 4), xs ! (m + 5), xs ! (m + 6), xs ! (m + 7)]"
    using assms by simp
next
  fix i assume "i < length (take 8 (drop m xs))"
  then have i: "i < 8" by simp
  then have "i \<in> {0, 1, 2, 3, 4, 5, 6, 7}" by auto
  with assms show "take 8 (drop m xs) ! i = [xs ! m, xs ! (m + 1), xs ! (m + 2), xs ! (m + 3),
           xs ! (m + 4), xs ! (m + 5), xs ! (m + 6), xs ! (m + 7)] ! i"
    by auto
qed

lemma fill_pattern_word:
  assumes "8 * k + 8 \<le> n"
  shows "le_word (take 8 (drop (8 * k) (fill_block 0 n (replicate n 0)))) = (0x800000008 :: 64 word)"
proof -
  let ?f = "fill_block 0 n (replicate n 0)"
  have len: "length ?f = n" by (simp add: length_fill_block)
  have nth: "?f ! j = (if 4 dvd j then 8 else 0)" if "j < n" for j
    using fill_block_nth [of "replicate n 0" n j 0] that by simp
  have d: "4 dvd 8 * k" "\<not> 4 dvd 8 * k + 1" "\<not> 4 dvd 8 * k + 2" "\<not> 4 dvd 8 * k + 3"
    "4 dvd 8 * k + 4" "\<not> 4 dvd 8 * k + 5" "\<not> 4 dvd 8 * k + 6" "\<not> 4 dvd 8 * k + 7"
    by presburger+
  have "take 8 (drop (8 * k) ?f) = [8, 0, 0, 0, 8, 0, 0, 0]"
    using assms d by (subst take_8_drop) (simp_all add: len nth)
  then show ?thesis
    by (simp add: le_word_def)
qed

section \<open>The frames the child sends\<close>

text \<open>
  Claim C8, as stated (on any failure in the child the emitted frame carries the failure's
  status), fails: when the mapping of the code region fails, the child calls \<open>perror\<close>
  and \<open>abort\<close> and hands no frame to \<open>WriteAll\<close>.
\<close>

theorem child_aborts_without_frame:
  "ChildProcess plain_lib no_memory_env [0x48, 0x31, 0xC9, 0x48, 0xF7, 0xF1] 4
       (initial_accessed_addrs 4096) fresh
     = \<lparr>sent = None, ending = Abort,
        final = \<lparr>errno = ENOMEM, calls = [Call_ptrace PTRACE_TRACEME 0, Call_raise SIGSTOP,
          Call_munmap 0x800000000 0x10000, Call_mmap kDefaultCodeLocation 9 PROT_WRITE_EXEC,
          Call_perror, Call_abort]\<rparr>\<rparr>"
  by (simp add: ChildProcess_def Let_def no_memory_env_def initial_accessed_addrs_def
        after_call_def fresh_def plain_lib_def ENOMEM_def)

text \<open>
  Claim C8, amended. The frame \<open>AbortChildProcess\<close> builds for a status is a whole
  frame that carries the status code and the first bytes of the message, at most 1023 of
  them; every byte after the message, to the end of the frame, is zero, so the message
  field ends in a NUL and reads back, as a C string, as the truncated message (when it
  contains no NUL itself). \<open>AbortChildProcess\<close> hands this frame to \<open>WriteAll\<close> (its
  first call is the \<open>write\<close> of the 1040 bytes at offset 0), never enters the code, and
  ends in \<open>abort\<close> if \<open>WriteAll\<close> returns. When the \<open>k\<close>-th discovered block is
  the first that \<open>mmap\<close> does not map at its address, the run of the child is that of
  \<open>AbortChildProcess\<close> for the status of this failure: an internal error if \<open>mmap\<close>
  failed, an invalid-argument error if it mapped another address. When all blocks are
  mapped and the mapping of the code region fails, the child calls \<open>perror\<close> and
  \<open>abort\<close> and hands over no frame; when that mapping succeeds, the frame it hands
  over is the one with the ok status and the address of the code.
\<close>

theorem failure_frames_of_the_child:
  "length (AbortChildProcess_piped_data status) = sizeof_PipedData
   \<and> status_code (AbortChildProcess_piped_data status) = code status
   \<and> take (min (length (message status)) (sizeof_status_message - 1))
        (drop offsetof_status_message (AbortChildProcess_piped_data status))
      = map of_char (take (sizeof_status_message - 1) (message status))
   \<and> (\<forall>i. offsetof_status_message
            + min (length (message status)) (sizeof_status_message - 1) \<le> i
          \<and> i < sizeof_PipedData \<longrightarrow> AbortChildProcess_piped_data status ! i = 0)
   \<and> AbortChildProcess_piped_data status
        ! (offsetof_status_message + sizeof_status_message - 1) = 0
   \<and> (CHR 0x00 \<notin> set (take (sizeof_status_message - 1) (message status)) \<longrightarrow>
        status_message (AbortChildProcess_piped_data status)
          = Some (take (sizeof_status_message - 1) (message status)))
   \<and> sent (AbortChildProcess lib fd status ws q) = Some (AbortChildProcess_piped_data status)
   \<and> ending (AbortChildProcess lib fd status ws q) \<noteq> Enter_code
   \<and> starts q (Call_write fd 0 sizeof_PipedData) (final (AbortChildProcess lib fd status ws q))
   \<and> (WriteAll lib fd (AbortChildProcess_piped_data status) ws q = Returns (st, rs, q') \<longrightarrow>
        AbortChildProcess lib fd status ws q
          = \<lparr>sent = Some (AbortChildProcess_piped_data status), ending = Abort,
             final = issue Call_abort q'\<rparr>)
   \<and> (k < length (accessed_blocks aa) \<and> blocks_mapped env (take k (accessed_blocks aa))
        \<and> (mmap_result env k = MAP_FAILED \<or> mmap_result env k \<noteq> accessed_blocks aa ! k)
      \<longrightarrow>
        ChildProcess lib env bb fd aa p =
          AbortChildProcess lib fd (block_failure lib env k (accessed_blocks aa ! k))
            (writes env)
            (after_call (mmap_ret env k)
              (then_calls (stopped_and_unmapped env p)
                (concat (map (block_calls (block_size aa)) (take k (accessed_blocks aa)))
                   @ [Call_mmap (accessed_blocks aa ! k) (unat (block_size aa))
                        PROT_READ_WRITE])))
        \<and> sent (ChildProcess lib env bb fd aa p)
            = Some (AbortChildProcess_piped_data
                (block_failure lib env k (accessed_blocks aa ! k)))
        \<and> ending (ChildProcess lib env bb fd aa p) \<noteq> Enter_code
        \<and> code (block_failure lib env k (accessed_blocks aa ! k))
            = (if mmap_result env k = MAP_FAILED then kInternal else kInvalidArgument))
   \<and> (blocks_mapped env (accessed_blocks aa)
        \<and> mmap_result env (length (accessed_blocks aa)) = MAP_FAILED
      \<longrightarrow>
        ChildProcess lib env bb fd aa p =
          \<lparr>sent = None, ending = Abort,
           final = then_calls
             (after_call (mmap_ret env (length (accessed_blocks aa)))
               (then_calls (stopped_and_unmapped env p)
                 (concat (map (block_calls (block_size aa)) (accessed_blocks aa))
                    @ [Call_mmap (desired_code_location aa) (total_block_size lib bb)
                         PROT_WRITE_EXEC])))
             [Call_perror, Call_abort]\<rparr>)
   \<and> (blocks_mapped env (accessed_blocks aa)
        \<and> mmap_result env (length (accessed_blocks aa)) \<noteq> MAP_FAILED
      \<longrightarrow>
        sent (ChildProcess lib env bb fd aa p)
          = Some (ok_frame (mmap_result env (length (accessed_blocks aa)))))
   \<and> ((sent (ChildProcess lib env bb fd aa p) = None
         \<and> ending (ChildProcess lib env bb fd aa p) = Abort)
      \<or> (failure_frame (sent (ChildProcess lib env bb fd aa p))
         \<and> ending (ChildProcess lib env bb fd aa p) \<noteq> Enter_code)
      \<or> (\<exists>a. sent (ChildProcess lib env bb fd aa p) = Some (ok_frame a)))"
proof -
  note frame = piped_data_frame [of status]
  note abort = AbortChildProcess_run [of lib fd status ws q st rs q']
  have block: "ChildProcess lib env bb fd aa p =
          AbortChildProcess lib fd (block_failure lib env k (accessed_blocks aa ! k))
            (writes env)
            (after_call (mmap_ret env k)
              (then_calls (stopped_and_unmapped env p)
                (concat (map (block_calls (block_size aa)) (take k (accessed_blocks aa)))
                   @ [Call_mmap (accessed_blocks aa ! k) (unat (block_size aa))
                        PROT_READ_WRITE])))
        \<and> sent (ChildProcess lib env bb fd aa p)
            = Some (AbortChildProcess_piped_data
                (block_failure lib env k (accessed_blocks aa ! k)))
        \<and> ending (ChildProcess lib env bb fd aa p) \<noteq> Enter_code
        \<and> code (block_failure lib env k (accessed_blocks aa ! k))
            = (if mmap_result env k = MAP_FAILED then kInternal else kInvalidArgument)"
    if h: "k < length (accessed_blocks aa) \<and> blocks_mapped env (take k (accessed_blocks aa))
        \<and> (mmap_result env k = MAP_FAILED \<or> mmap_result env k \<noteq> accessed_blocks aa ! k)"
  proof -
    from h have c: "ChildProcess lib env bb fd aa p =
          AbortChildProcess lib fd (block_failure lib env k (accessed_blocks aa ! k))
            (writes env)
            (after_call (mmap_ret env k)
              (then_calls (stopped_and_unmapped env p)
                (concat (map (block_calls (block_size aa)) (take k (accessed_blocks aa)))
                   @ [Call_mmap (accessed_blocks aa ! k) (unat (block_size aa))
                        PROT_READ_WRITE])))"
      by (intro ChildProcess_block_failure) simp_all
    have "code (block_failure lib env k (accessed_blocks aa ! k))
            = (if mmap_result env k = MAP_FAILED then kInternal else kInvalidArgument)"
      by (simp add: block_failure_def InternalError_def InvalidArgumentError_def)
    with c AbortChildProcess_run [where lib = lib and fd = fd
        and status = "block_failure lib env k (accessed_blocks aa ! k)"]
    show ?thesis by simp
  qed
  have code: "ChildProcess lib env bb fd aa p =
          \<lparr>sent = None, ending = Abort,
           final = then_calls
             (after_call (mmap_ret env (length (accessed_blocks aa)))
               (then_calls (stopped_and_unmapped env p)
                 (concat (map (block_calls (block_size aa)) (accessed_blocks aa))
                    @ [Call_mmap (desired_code_location aa) (total_block_size lib bb)
                         PROT_WRITE_EXEC])))
             [Call_perror, Call_abort]\<rparr>"
    if "blocks_mapped env (accessed_blocks aa)
        \<and> mmap_result env (length (accessed_blocks aa)) = MAP_FAILED"
    using that by (intro ChildProcess_code_failure) simp_all
  have okay: "sent (ChildProcess lib env bb fd aa p)
          = Some (ok_frame (mmap_result env (length (accessed_blocks aa))))"
    if "blocks_mapped env (accessed_blocks aa)
        \<and> mmap_result env (length (accessed_blocks aa)) \<noteq> MAP_FAILED"
    using that by (intro ChildProcess_frame_sent) simp_all
  note kinds = ChildProcess_result [of aa env p lib bb fd, THEN conjunct2, THEN conjunct2]
  from frame abort block code okay kinds show ?thesis
    by blast
qed

theorem failure_frames_of_the_child_witness:
  "status_code (AbortChildProcess_piped_data (InvalidArgumentError ''unmappable'')) = kInvalidArgument
   \<and> status_message (AbortChildProcess_piped_data (InvalidArgumentError ''unmappable''))
       = Some ''unmappable''
   \<and> AbortChildProcess_piped_data (InvalidArgumentError ''unmappable'') ! 1030 = 0
   \<and> take 1023 (drop 4 (AbortChildProcess_piped_data (InternalError (replicate 2000 CHR ''x''))))
       = replicate 1023 (of_char CHR ''x'')
   \<and> AbortChildProcess_piped_data (InternalError (replicate 2000 CHR ''x'')) ! 1027 = 0
   \<and> status_message (AbortChildProcess_piped_data (InternalError (replicate 2000 CHR ''x'')))
       = Some (replicate 1023 CHR ''x'')
   \<and> sent (ChildProcess plain_lib one_block_env [0x48, 0x31, 0xC9, 0x48, 0xF7, 0xF1] 4
        ((initial_accessed_addrs 4096)\<lparr>accessed_blocks := [0x50015000, 0x50016000]\<rparr>) fresh)
       = Some (AbortChildProcess_piped_data
           (InternalError ''mapping previously discovered address %p failed''))
   \<and> status_code (AbortChildProcess_piped_data
           (InternalError ''mapping previously discovered address %p failed'')) = kInternal
   \<and> status_message (AbortChildProcess_piped_data
           (InternalError ''mapping previously discovered address %p failed''))
       = Some ''mapping previously discovered address %p failed''
   \<and> ChildProcess plain_lib one_block_env [0x48, 0x31, 0xC9, 0x48, 0xF7, 0xF1] 4
        ((initial_accessed_addrs 4096)\<lparr>accessed_blocks := [0x50015000]\<rparr>) fresh
       = \<lparr>sent = None, ending = Abort,
          final = \<lparr>errno = ENOMEM, calls = [Call_ptrace PTRACE_TRACEME 0, Call_raise SIGSTOP,
            Call_munmap 0x800000000 0x10000] @ block_calls 4096 0x50015000
            @ [Call_mmap kDefaultCodeLocation 9 PROT_WRITE_EXEC, Call_perror, Call_abort]\<rparr>\<rparr>"
proof -
  let ?s = "InvalidArgumentError ''unmappable''"
  let ?l = "InternalError (replicate 2000 CHR ''x'')"
  let ?m = "InternalError ''mapping previously discovered address %p failed''"
  let ?bb = "[0x48, 0x31, 0xC9, 0x48, 0xF7, 0xF1] :: byte list"
  let ?aa2 = "(initial_accessed_addrs 4096)\<lparr>accessed_blocks := [0x50015000, 0x50016000]\<rparr>"
  let ?aa1 = "(initial_accessed_addrs 4096)\<lparr>accessed_blocks := [0x50015000]\<rparr>"
  note short = failure_frames_of_the_child [where status = "?s" and lib = plain_lib and fd = 4
      and ws = "[]" and q = fresh and k = 0 and aa = "?aa1" and env = one_block_env
      and bb = ?bb and p = fresh]
  note long = failure_frames_of_the_child [where status = "?l" and lib = plain_lib and fd = 4
      and ws = "[]" and q = fresh and k = 0 and aa = "?aa1" and env = one_block_env
      and bb = ?bb and p = fresh]
  note two = failure_frames_of_the_child [where status = "?m" and lib = plain_lib and fd = 4
      and ws = "[]" and q = fresh and k = 1 and aa = "?aa2" and env = one_block_env
      and bb = ?bb and p = fresh]
  have ms: "message ?s = ''unmappable''" "code ?s = kInvalidArgument"
    by (simp_all add: InvalidArgumentError_def)
  have ml: "message ?l = replicate 2000 CHR ''x''"
    by (simp add: InternalError_def)
  have mm: "message ?m = ''mapping previously discovered address %p failed''"
    "code ?m = kInternal"
    by (simp_all add: InternalError_def)
  have 1: "status_code (AbortChildProcess_piped_data ?s) = kInvalidArgument"
    using short ms by simp
  have 2: "status_message (AbortChildProcess_piped_data ?s) = Some ''unmappable''"
    using short by (simp add: ms sizeof_status_message_def)
  have 3: "AbortChildProcess_piped_data ?s ! 1030 = 0"
    using short [THEN conjunct2, THEN conjunct2, THEN conjunct2, THEN conjunct1,
        rule_format, of 1030]
    by (simp add: ms sizeof_status_message_def offsetof_status_message_def sizeof_PipedData_def)
  have 4: "take 1023 (drop 4 (AbortChildProcess_piped_data ?l))
       = replicate 1023 (of_char CHR ''x'')"
    using long [THEN conjunct2, THEN conjunct2, THEN conjunct1]
    by (simp add: ml sizeof_status_message_def offsetof_status_message_def)
  have 5: "AbortChildProcess_piped_data ?l ! 1027 = 0"
    using long by (simp add: sizeof_status_message_def offsetof_status_message_def)
  have 6: "status_message (AbortChildProcess_piped_data ?l) = Some (replicate 1023 CHR ''x'')"
    using long by (simp add: ml sizeof_status_message_def)
  have nf: "(0x50015000 :: uintptr_t) \<noteq> MAP_FAILED" "(0x50016000 :: uintptr_t) \<noteq> MAP_FAILED"
    by (simp_all add: MAP_FAILED_def)
  have r0: "mmap_result one_block_env 0 = 0x50015000" "mmap_result one_block_env 1 = MAP_FAILED"
    by (simp_all add: mmap_result_def one_block_env_def)
  have bm: "blocks_mapped one_block_env [0x50015000]"
    using nf r0 by (simp add: blocks_mapped_def)
  have bf: "block_failure plain_lib one_block_env 1 0x50016000 = ?m"
    using r0 by (simp add: block_failure_def plain_lib_def)
  have hyp: "1 < length (accessed_blocks ?aa2)
      \<and> blocks_mapped one_block_env (take 1 (accessed_blocks ?aa2))
      \<and> (mmap_result one_block_env 1 = MAP_FAILED
          \<or> mmap_result one_block_env 1 \<noteq> accessed_blocks ?aa2 ! 1)"
    using bm r0 by simp
  from two [THEN conjunct2, THEN conjunct2, THEN conjunct2, THEN conjunct2, THEN conjunct2,
        THEN conjunct2, THEN conjunct2, THEN conjunct2, THEN conjunct2, THEN conjunct2,
        THEN conjunct1, rule_format, OF hyp]
  have "sent (ChildProcess plain_lib one_block_env ?bb 4 ?aa2 fresh)
      = Some (AbortChildProcess_piped_data
          (block_failure plain_lib one_block_env 1 (accessed_blocks ?aa2 ! 1)))"
    by blast
  with bf have 7: "sent (ChildProcess plain_lib one_block_env ?bb 4 ?aa2 fresh)
      = Some (AbortChildProcess_piped_data ?m)"
    by simp
  have 8: "status_code (AbortChildProcess_piped_data ?m) = kInternal"
    using two mm by simp
  have 9: "status_message (AbortChildProcess_piped_data ?m)
      = Some ''mapping previously discovered address %p failed''"
    using two [THEN conjunct2, THEN conjunct2, THEN conjunct2, THEN conjunct2, THEN conjunct2,
        THEN conjunct1]
    by (simp add: mm sizeof_status_message_def)
  have 10: "ChildProcess plain_lib one_block_env ?bb 4 ?aa1 fresh
       = \<lparr>sent = None, ending = Abort,
          final = \<lparr>errno = ENOMEM, calls = [Call_ptrace PTRACE_TRACEME 0, Call_raise SIGSTOP,
            Call_munmap 0x800000000 0x10000] @ block_calls 4096 0x50015000
            @ [Call_mmap kDefaultCodeLocation 9 PROT_WRITE_EXEC, Call_perror, Call_abort]\<rparr>\<rparr>"
    using short [THEN conjunct2, THEN conjunct2, THEN conjunct2, THEN conjunct2, THEN conjunct2,
        THEN conjunct2, THEN conjunct2, THEN conjunct2, THEN conjunct2, THEN conjunct2,
        THEN conjunct2, THEN conjunct1] bm r0
    by (simp add: stopped_and_unmapped_def one_block_env_def after_call_def then_calls_def
          issue_def fresh_def desired_code_location_def total_block_size_def plain_lib_def
          initial_accessed_addrs_def)
  from 1 2 3 4 5 6 7 8 9 10 show ?thesis by blast
qed

section \<open>The unmapping of the magic address\<close>

text \<open>
  Claim C9, as stated (the child unmaps a region around \<open>0x8000'0000\<close>), fails on the
  address: the region the child unmaps starts at \<open>0x8'0000'0000\<close>, which is the only
  \<open>munmap\<close> of a run, and \<open>0x8000'0000\<close> lies below it.
\<close>

theorem child_unmaps_at_0x800000000:
  "calls (final (ChildProcess plain_lib willing_env [0x48, 0x31, 0xC9, 0x48, 0xF7, 0xF1] 4
       (initial_accessed_addrs 4096) fresh))
     = [Call_ptrace PTRACE_TRACEME 0, Call_raise SIGSTOP,
        Call_munmap 0x800000000 0x10000,
        Call_mmap kDefaultCodeLocation 9 PROT_WRITE_EXEC,
        Call_write 4 0 1040, Call_close 4,
        Store kDefaultCodeLocation [0x90],
        Store (kDefaultCodeLocation + 1) [0x48, 0x31, 0xC9, 0x48, 0xF7, 0xF1],
        Store (kDefaultCodeLocation + 7) [0x0F, 0x0B],
        Call_code kDefaultCodeLocation]
   \<and> (0x80000000 :: uintptr_t) < 0x800000000
   \<and> (0x800000000 :: uintptr_t) \<noteq> 0x80000000"
proof -
  have w: "WriteAll plain_lib 4 (ok_frame kDefaultCodeLocation) [Done 1040] q
      = Returns (OkStatus, [], issue (Call_close 4) (issue (Call_write 4 0 1040) q))"
    if "errno q = 0" for q
    using WriteAll_whole_frame [of "ok_frame kDefaultCodeLocation" 1040 q plain_lib 4 "[]"] that
    by (simp add: ok_frame_fields(1) sizeof_PipedData_def IsRetryable_def EINTR_def EAGAIN_def
          EWOULDBLOCK_def)
  have bl: "GetGematriaBeforeBlockCode plain_lib = [0x90]"
    "GetGematriaAfterBlockCode plain_lib = [0x0F, 0x0B]"
    by (simp_all add: plain_lib_def)
  have nf: "kDefaultCodeLocation \<noteq> MAP_FAILED"
    by (simp add: kDefaultCodeLocation_def MAP_FAILED_def)
  have "calls (final (ChildProcess plain_lib willing_env [0x48, 0x31, 0xC9, 0x48, 0xF7, 0xF1] 4
       (initial_accessed_addrs 4096) fresh))
     = [Call_ptrace PTRACE_TRACEME 0, Call_raise SIGSTOP,
        Call_munmap 0x800000000 0x10000,
        Call_mmap kDefaultCodeLocation 9 PROT_WRITE_EXEC,
        Call_write 4 0 1040, Call_close 4,
        Store kDefaultCodeLocation [0x90],
        Store (kDefaultCodeLocation + 1) [0x48, 0x31, 0xC9, 0x48, 0xF7, 0xF1],
        Store (kDefaultCodeLocation + 7) [0x0F, 0x0B],
        Call_code kDefaultCodeLocation]"
    by (simp add: ChildProcess_def Let_def willing_env_def initial_accessed_addrs_def
          after_call_def bl ok_frame_def [symmetric] w nf errno_fresh ok_OkStatus)
       (simp add: fresh_def)
  then show ?thesis by simp
qed

text \<open>
  Claim C9, amended. Whatever the kernel answers, the child's first calls are the
  \<open>PTRACE_TRACEME\<close> request, the \<open>SIGSTOP\<close> it raises, the \<open>munmap\<close> of the
  \<open>0x10000\<close> bytes at \<open>0x8'0000'0000\<close>, and then the first mapping: of the first
  discovered block if there is one, of the code region otherwise. So the \<open>munmap\<close>
  comes after the stop and before every mapping. Its result is not looked at: the run in
  which it fails with \<open>e\<close> is the run in which it succeeds and \<open>errno\<close> was \<open>e\<close>
  from the start; and \<open>errno\<close> bears on the rest of the run only through the retry
  loops of \<open>WriteAll\<close>, so that the run in which it fails hands over the same frame,
  ends in the same way and issues the same calls as the run in which it succeeds, when
  \<open>e\<close> is a retryable code exactly if the value of \<open>errno\<close> at the start is one.
  In particular, when it fails with a code that is not retryable (as
  \<open>EINVAL\<close>, the error \<open>munmap\<close> fails with), the blocks are mapped at their
  addresses, the code is mapped and the first \<open>write\<close> takes the whole frame, the
  child sends the ok frame and enters the code. The region holds \<open>0x8'0000'0008\<close>, the
  value of every aligned 8-byte chunk of a block filled by the child.
\<close>

theorem child_unmaps_before_mapping:
  "(\<exists>zs. calls (final (ChildProcess lib env bb fd aa p))
        = calls p @ [Call_ptrace PTRACE_TRACEME 0, Call_raise SIGSTOP,
            Call_munmap 0x800000000 0x10000,
            (case accessed_blocks aa of
               [] \<Rightarrow> Call_mmap (desired_code_location aa) (total_block_size lib bb)
                       PROT_WRITE_EXEC
             | loc # rest \<Rightarrow> Call_mmap loc (unat (block_size aa)) PROT_READ_WRITE)] @ zs)
   \<and> ChildProcess lib (env\<lparr>munmap_ret := Fails e\<rparr>) bb fd aa p
       = ChildProcess lib (env\<lparr>munmap_ret := Done ()\<rparr>) bb fd aa (p\<lparr>errno := e\<rparr>)
   \<and> (IsRetryable e = IsRetryable (errno p) \<longrightarrow>
        sent (ChildProcess lib (env\<lparr>munmap_ret := Fails e\<rparr>) bb fd aa p)
          = sent (ChildProcess lib (env\<lparr>munmap_ret := Done ()\<rparr>) bb fd aa p)
        \<and> ending (ChildProcess lib (env\<lparr>munmap_ret := Fails e\<rparr>) bb fd aa p)
          = ending (ChildProcess lib (env\<lparr>munmap_ret := Done ()\<rparr>) bb fd aa p)
        \<and> calls (final (ChildProcess lib (env\<lparr>munmap_ret := Fails e\<rparr>) bb fd aa p))
          = calls (final (ChildProcess lib (env\<lparr>munmap_ret := Done ()\<rparr>) bb fd aa p)))
   \<and> (munmap_ret env = Fails e \<and> \<not> IsRetryable e
        \<and> blocks_mapped env (accessed_blocks aa)
        \<and> mmap_result env (length (accessed_blocks aa)) = a \<and> a \<noteq> MAP_FAILED
        \<and> writes env = Done k # rs \<and> sizeof_PipedData \<le> k
      \<longrightarrow>
        ChildProcess lib env bb fd aa p =
          \<lparr>sent = Some (ok_frame a), ending = Enter_code,
           final = then_calls (p\<lparr>errno := e\<rparr>)
             ([Call_ptrace PTRACE_TRACEME 0, Call_raise SIGSTOP,
               Call_munmap 0x800000000 0x10000]
              @ concat (map (block_calls (block_size aa)) (accessed_blocks aa))
              @ [Call_mmap (desired_code_location aa) (total_block_size lib bb)
                   PROT_WRITE_EXEC,
                 Call_write fd 0 sizeof_PipedData, Call_close fd,
                 Store a (GetGematriaBeforeBlockCode lib),
                 Store (a + of_nat (length (GetGematriaBeforeBlockCode lib))) bb,
                 Store (a + of_nat (length (GetGematriaBeforeBlockCode lib))
                          + of_nat (length bb)) (GetGematriaAfterBlockCode lib),
                 Call_code a])\<rparr>)
   \<and> (\<forall>j. 8 * j + 8 \<le> n \<longrightarrow>
         le_word (take 8 (drop (8 * j) (fill_block 0 n (replicate n 0))))
           = (0x800000008 :: uintptr_t))
   \<and> (0x800000000 :: uintptr_t) \<le> 0x800000008
   \<and> (0x800000008 :: uintptr_t) < 0x800000000 + 0x10000"
proof -
  have c3: "calls (stopped_and_unmapped env p)
      = calls p @ [Call_ptrace PTRACE_TRACEME 0, Call_raise SIGSTOP,
          Call_munmap 0x800000000 0x10000]"
    by (simp add: stopped_and_unmapped_def)
  have 1: "\<exists>zs. calls (final (ChildProcess lib env bb fd aa p))
        = calls p @ [Call_ptrace PTRACE_TRACEME 0, Call_raise SIGSTOP,
            Call_munmap 0x800000000 0x10000,
            (case accessed_blocks aa of
               [] \<Rightarrow> Call_mmap (desired_code_location aa) (total_block_size lib bb)
                       PROT_WRITE_EXEC
             | loc # rest \<Rightarrow> Call_mmap loc (unat (block_size aa)) PROT_READ_WRITE)] @ zs"
    using ChildProcess_result [of aa env p lib bb fd] c3
    by (cases "accessed_blocks aa") (auto simp add: starts_def)
  have 3: "ChildProcess lib env bb fd aa p =
          \<lparr>sent = Some (ok_frame a), ending = Enter_code,
           final = then_calls (p\<lparr>errno := e\<rparr>)
             ([Call_ptrace PTRACE_TRACEME 0, Call_raise SIGSTOP,
               Call_munmap 0x800000000 0x10000]
              @ concat (map (block_calls (block_size aa)) (accessed_blocks aa))
              @ [Call_mmap (desired_code_location aa) (total_block_size lib bb)
                   PROT_WRITE_EXEC,
                 Call_write fd 0 sizeof_PipedData, Call_close fd,
                 Store a (GetGematriaBeforeBlockCode lib),
                 Store (a + of_nat (length (GetGematriaBeforeBlockCode lib))) bb,
                 Store (a + of_nat (length (GetGematriaBeforeBlockCode lib))
                          + of_nat (length bb)) (GetGematriaAfterBlockCode lib),
                 Call_code a])\<rparr>"
    if h: "munmap_ret env = Fails e \<and> \<not> IsRetryable e
        \<and> blocks_mapped env (accessed_blocks aa)
        \<and> mmap_result env (length (accessed_blocks aa)) = a \<and> a \<noteq> MAP_FAILED
        \<and> writes env = Done k # rs \<and> sizeof_PipedData \<le> k"
  proof -
    from h have r: "\<not> IsRetryable (errno (after_call (munmap_ret env) p))"
      by (simp add: after_call_def)
    from h have s: "stopped_and_unmapped env p = then_calls (p\<lparr>errno := e\<rparr>)
        [Call_ptrace PTRACE_TRACEME 0, Call_raise SIGSTOP, Call_munmap 0x800000000 0x10000]"
      by (simp add: stopped_and_unmapped_def after_call_def then_calls_def issue_def)
    from h r have "ChildProcess lib env bb fd aa p =
           \<lparr>sent = Some (ok_frame a), ending = Enter_code,
            final = then_calls (stopped_and_unmapped env p)
              (concat (map (block_calls (block_size aa)) (accessed_blocks aa))
                 @ [Call_mmap (desired_code_location aa) (total_block_size lib bb)
                      PROT_WRITE_EXEC,
                    Call_write fd 0 sizeof_PipedData, Call_close fd,
                    Store a (GetGematriaBeforeBlockCode lib),
                    Store (a + of_nat (length (GetGematriaBeforeBlockCode lib))) bb,
                    Store (a + of_nat (length (GetGematriaBeforeBlockCode lib))
                             + of_nat (length bb)) (GetGematriaAfterBlockCode lib),
                    Call_code a])\<rparr>"
      by (intro ChildProcess_enters_code [where k = k and rs = rs]) simp_all
    then show ?thesis
      unfolding s by (simp add: then_calls_simps)
  qed
  have 4: "\<forall>j. 8 * j + 8 \<le> n \<longrightarrow>
         le_word (take 8 (drop (8 * j) (fill_block 0 n (replicate n 0))))
           = (0x800000008 :: uintptr_t)"
    using fill_pattern_word by blast
  have 2: "sent (ChildProcess lib (env\<lparr>munmap_ret := Fails e\<rparr>) bb fd aa p)
          = sent (ChildProcess lib (env\<lparr>munmap_ret := Done ()\<rparr>) bb fd aa p)
        \<and> ending (ChildProcess lib (env\<lparr>munmap_ret := Fails e\<rparr>) bb fd aa p)
          = ending (ChildProcess lib (env\<lparr>munmap_ret := Done ()\<rparr>) bb fd aa p)
        \<and> calls (final (ChildProcess lib (env\<lparr>munmap_ret := Fails e\<rparr>) bb fd aa p))
          = calls (final (ChildProcess lib (env\<lparr>munmap_ret := Done ()\<rparr>) bb fd aa p))"
    if "IsRetryable e = IsRetryable (errno p)"
    using ChildProcess_munmap_result [OF that, of lib env bb fd aa]
    by (simp add: same_run_def alike_def)
  from 1 ChildProcess_munmap_failed [where lib = lib and env = env and e = e and bb = bb
      and fd = fd and aa = aa and p = p] 2 3 4 show ?thesis
    by simp
qed

theorem child_unmaps_before_mapping_witness:
  "ChildProcess plain_lib unmap_fails_env [0x48, 0x31, 0xC9, 0x48, 0xF7, 0xF1] 4
       ((initial_accessed_addrs 4096)\<lparr>accessed_blocks := [0x50015000]\<rparr>) fresh
     = \<lparr>sent = Some (ok_frame kDefaultCodeLocation), ending = Enter_code,
        final = \<lparr>errno = EINVAL, calls = [Call_ptrace PTRACE_TRACEME 0, Call_raise SIGSTOP,
          Call_munmap 0x800000000 0x10000] @ block_calls 4096 0x50015000
          @ [Call_mmap kDefaultCodeLocation 9 PROT_WRITE_EXEC,
             Call_write 4 0 1040, Call_close 4,
             Store kDefaultCodeLocation [0x90],
             Store (kDefaultCodeLocation + 1) [0x48, 0x31, 0xC9, 0x48, 0xF7, 0xF1],
             Store (kDefaultCodeLocation + 7) [0x0F, 0x0B],
             Call_code kDefaultCodeLocation]\<rparr>\<rparr>
   \<and> le_word (take 8 (drop 16 (fill_block 0 4096 (replicate 4096 0)))) = (0x800000008 :: uintptr_t)"
proof -
  let ?bb = "[0x48, 0x31, 0xC9, 0x48, 0xF7, 0xF1] :: byte list"
  let ?aa = "(initial_accessed_addrs 4096)\<lparr>accessed_blocks := [0x50015000]\<rparr>"
  note main = child_unmaps_before_mapping [where lib = plain_lib and env = unmap_fails_env
      and bb = ?bb and fd = 4 and aa = ?aa and p = fresh and e = EINVAL
      and a = kDefaultCodeLocation and k = 1040 and rs = "[]" and n = 4096]
  have nf: "(0x50015000 :: uintptr_t) \<noteq> MAP_FAILED" "kDefaultCodeLocation \<noteq> MAP_FAILED"
    by (simp_all add: MAP_FAILED_def kDefaultCodeLocation_def)
  have r0: "mmap_result unmap_fails_env 0 = 0x50015000"
    "mmap_result unmap_fails_env 1 = kDefaultCodeLocation"
    by (simp_all add: mmap_result_def unmap_fails_env_def)
  have bm: "blocks_mapped unmap_fails_env [0x50015000]"
    using nf r0 by (simp add: blocks_mapped_def)
  have env: "munmap_ret unmap_fails_env = Fails EINVAL" "writes unmap_fails_env = [Done 1040]"
    by (simp_all add: unmap_fails_env_def)
  have nr: "\<not> IsRetryable EINVAL"
    by (simp add: IsRetryable_def EINVAL_def EINTR_def EAGAIN_def EWOULDBLOCK_def)
  have 1: "ChildProcess plain_lib unmap_fails_env ?bb 4 ?aa fresh
     = \<lparr>sent = Some (ok_frame kDefaultCodeLocation), ending = Enter_code,
        final = \<lparr>errno = EINVAL, calls = [Call_ptrace PTRACE_TRACEME 0, Call_raise SIGSTOP,
          Call_munmap 0x800000000 0x10000] @ block_calls 4096 0x50015000
          @ [Call_mmap kDefaultCodeLocation 9 PROT_WRITE_EXEC,
             Call_write 4 0 1040, Call_close 4,
             Store kDefaultCodeLocation [0x90],
             Store (kDefaultCodeLocation + 1) ?bb,
             Store (kDefaultCodeLocation + 7) [0x0F, 0x0B],
             Call_code kDefaultCodeLocation]\<rparr>\<rparr>"
    using main [THEN conjunct2, THEN conjunct2, THEN conjunct2, THEN conjunct1] nf bm r0 env nr
    by (simp add: sizeof_PipedData_def then_calls_def fresh_def desired_code_location_def
          total_block_size_def plain_lib_def initial_accessed_addrs_def)
  have 2: "le_word (take 8 (drop 16 (fill_block 0 4096 (replicate 4096 0))))
      = (0x800000008 :: uintptr_t)"
    using main [THEN conjunct2, THEN conjunct2, THEN conjunct2, THEN conjunct2,
        THEN conjunct1, rule_format, of 2] by simp
  from 1 2 show ?thesis by blast
qed

end
